theory Spec2Isabelle
  imports Complex_Main "HOL-Library.Word" "HOL-Library.Multiset"
begin

section \<open>Go values used by the program\<close>

text \<open>
  The program computes with \<open>float64\<close>. A finite value is modelled by the real number
  it denotes; the IEEE-754 special values are explicit constructors, because the program
  relies on them (a division by zero does not panic in Go, it yields an infinity or NaN).
  Rounding and the sign of zero are not modelled: every zero behaves as \<open>+0\<close>.
\<close>

datatype f64 = Fin real | PInf | NInf | NaN

text \<open>Go's conversion of a float to an integer type discards the fraction.\<close>

definition go_trunc :: "real \<Rightarrow> int" where
  "go_trunc r = (if 0 \<le> r then \<lfloor>r\<rfloor> else \<lceil>r\<rceil>)"

fun f64_neg :: "f64 \<Rightarrow> f64" where
  "f64_neg (Fin a) = Fin (- a)"
| "f64_neg PInf = NInf"
| "f64_neg NInf = PInf"
| "f64_neg NaN = NaN"

fun f64_add :: "f64 \<Rightarrow> f64 \<Rightarrow> f64" where
  "f64_add (Fin a) (Fin b) = Fin (a + b)"
| "f64_add NaN _ = NaN"
| "f64_add _ NaN = NaN"
| "f64_add PInf NInf = NaN"
| "f64_add NInf PInf = NaN"
| "f64_add PInf _ = PInf"
| "f64_add NInf _ = NInf"
| "f64_add _ PInf = PInf"
| "f64_add _ NInf = NInf"

definition f64_sub :: "f64 \<Rightarrow> f64 \<Rightarrow> f64" where
  "f64_sub a b = f64_add a (f64_neg b)"

text \<open>The sign of an operand: \<open>1\<close> for positive values and zero, \<open>-1\<close> for negative ones.\<close>

fun f64_sign :: "f64 \<Rightarrow> int" where
  "f64_sign (Fin a) = (if a < 0 then - 1 else 1)"
| "f64_sign PInf = 1"
| "f64_sign NInf = - 1"
| "f64_sign NaN = 1"

definition f64_inf :: "int \<Rightarrow> f64" where
  "f64_inf s = (if s < 0 then NInf else PInf)"

fun f64_mul :: "f64 \<Rightarrow> f64 \<Rightarrow> f64" where
  "f64_mul (Fin a) (Fin b) = Fin (a * b)"
| "f64_mul NaN _ = NaN"
| "f64_mul _ NaN = NaN"
| "f64_mul (Fin a) b = (if a = 0 then NaN else f64_inf (f64_sign (Fin a) * f64_sign b))"
| "f64_mul a (Fin b) = (if b = 0 then NaN else f64_inf (f64_sign a * f64_sign (Fin b)))"
| "f64_mul a b = f64_inf (f64_sign a * f64_sign b)"

fun f64_div :: "f64 \<Rightarrow> f64 \<Rightarrow> f64" where
  "f64_div (Fin a) (Fin b) =
     (if b \<noteq> 0 then Fin (a / b)
      else if a = 0 then NaN
      else f64_inf (f64_sign (Fin a)))"
| "f64_div NaN _ = NaN"
| "f64_div _ NaN = NaN"
| "f64_div (Fin a) _ = Fin 0"
| "f64_div a (Fin b) = f64_inf (f64_sign a * f64_sign (Fin b))"
| "f64_div _ _ = NaN"

text \<open>
  \<open>math.Mod(x, y)\<close>: the floating-point remainder, with the sign of \<open>x\<close>; NaN when
  \<open>x\<close> is infinite or NaN, or \<open>y\<close> is zero or NaN; \<open>x\<close> when \<open>y\<close> is infinite.
\<close>

fun f64_mod :: "f64 \<Rightarrow> f64 \<Rightarrow> f64" where
  "f64_mod (Fin a) (Fin b) = (if b = 0 then NaN else Fin (a - b * real_of_int (go_trunc (a / b))))"
| "f64_mod (Fin a) PInf = Fin a"
| "f64_mod (Fin a) NInf = Fin a"
| "f64_mod _ _ = NaN"

text \<open>Comparisons: every comparison with NaN is false.\<close>

fun f64_lt :: "f64 \<Rightarrow> f64 \<Rightarrow> bool" where
  "f64_lt (Fin a) (Fin b) = (a < b)"
| "f64_lt NaN _ = False"
| "f64_lt _ NaN = False"
| "f64_lt NInf NInf = False"
| "f64_lt NInf _ = True"
| "f64_lt PInf _ = False"
| "f64_lt _ PInf = True"
| "f64_lt _ NInf = False"

fun f64_le :: "f64 \<Rightarrow> f64 \<Rightarrow> bool" where
  "f64_le NaN _ = False"
| "f64_le _ NaN = False"
| "f64_le a b = (a = b \<or> f64_lt a b)"

definition f64_gt :: "f64 \<Rightarrow> f64 \<Rightarrow> bool" where
  "f64_gt a b = f64_lt b a"

definition f64_ge :: "f64 \<Rightarrow> f64 \<Rightarrow> bool" where
  "f64_ge a b = f64_le b a"

text \<open>\<open>float64(n)\<close> of an \<open>int\<close>.\<close>

definition float64 :: "int \<Rightarrow> f64" where
  "float64 n = Fin (real_of_int n)"

section \<open>Expression nodes and their evaluation (package nodes)\<close>

type_synonym componentType = string
type_synonym opType = string

record pos =
  pos_file :: string
  pos_line :: int

text \<open>\<open>State\<close>: the six scalars a node is evaluated against.\<close>

record State =
  X :: f64
  Y :: f64
  F :: f64
  R :: f64
  G :: f64
  B :: f64

text \<open>
  The node types of the source (\<open>value[float64]\<close>, \<open>value[bool]\<close>, \<open>component\<close>, \<open>op\<close>,
  \<open>triple\<close>, \<open>ifThenElse\<close>), each with its position.
\<close>

datatype Node =
    valueF pos f64
  | valueB pos bool
  | component pos componentType
  | op pos opType Node Node
  | triple pos Node Node Node
  | ifThenElse pos Node Node Node

datatype notA = number | boolean | root

text \<open>
  What an evaluation can end in besides a node: a \<open>ValidationError\<close>, the error of an
  operator the switch does not handle, or the panic of \<open>State.component\<close> on a name that is
  not a component.
\<close>

datatype eval_error =
    ValidationError Node notA
  | OperatorNotHandled opType
  | PanicNotAComponent componentType

definition State_component :: "State \<Rightarrow> componentType \<Rightarrow> eval_error + f64" where
  "State_component s c =
     (if c = ''x'' then Inr (X s)
      else if c = ''y'' then Inr (Y s)
      else if c = ''f'' then Inr (F s)
      else if c = ''r'' then Inr (R s)
      else if c = ''g'' then Inr (G s)
      else if c = ''b'' then Inr (B s)
      else Inl (PanicNotAComponent c))"

fun isNumber :: "Node \<Rightarrow> eval_error + f64" where
  "isNumber (valueF p v) = Inr v"
| "isNumber n = Inl (ValidationError n number)"

fun isBoolean :: "Node \<Rightarrow> eval_error + bool" where
  "isBoolean (valueB p v) = Inr v"
| "isBoolean n = Inl (ValidationError n boolean)"

text \<open>The operator switch of \<open>op.Eval\<close>, applied to the two numbers.\<close>

definition op_apply :: "pos \<Rightarrow> opType \<Rightarrow> f64 \<Rightarrow> f64 \<Rightarrow> eval_error + Node" where
  "op_apply p t l r =
     (if t = ''add'' then Inr (valueF p (f64_add l r))
      else if t = ''sub'' then Inr (valueF p (f64_sub l r))
      else if t = ''mul'' then Inr (valueF p (f64_mul l r))
      else if t = ''div'' then Inr (valueF p (f64_div l r))
      else if t = ''mod'' then Inr (valueF p (f64_mod l r))
      else if t = ''gt'' then Inr (valueB p (f64_gt l r))
      else if t = ''ge'' then Inr (valueB p (f64_ge l r))
      else if t = ''lt'' then Inr (valueB p (f64_lt l r))
      else if t = ''le'' then Inr (valueB p (f64_le l r))
      else Inl (OperatorNotHandled t))"

fun Eval :: "Node \<Rightarrow> State \<Rightarrow> eval_error + Node" where
  "Eval (valueF p v) s = Inr (valueF p v)"
| "Eval (valueB p v) s = Inr (valueB p v)"
| "Eval (component p ct) s =
     (case State_component s ct of
        Inl e \<Rightarrow> Inl e
      | Inr v \<Rightarrow> Inr (valueF p v))"
| "Eval (op p t l r) s =
     (case Eval l s of
        Inl e \<Rightarrow> Inl e
      | Inr left \<Rightarrow>
         (case Eval r s of
            Inl e \<Rightarrow> Inl e
          | Inr right \<Rightarrow>
             (case isNumber left of
                Inl e \<Rightarrow> Inl e
              | Inr leftN \<Rightarrow>
                 (case isNumber right of
                    Inl e \<Rightarrow> Inl e
                  | Inr rightN \<Rightarrow> op_apply p t leftN rightN))))"
| "Eval (triple p a b c) s =
     (case Eval a s of
        Inl e \<Rightarrow> Inl e
      | Inr one \<Rightarrow>
         (case Eval b s of
            Inl e \<Rightarrow> Inl e
          | Inr two \<Rightarrow>
             (case Eval c s of
                Inl e \<Rightarrow> Inl e
              | Inr three \<Rightarrow> Inr (triple p one two three))))"
| "Eval (ifThenElse p cond thn otherwise) s =
     (case Eval cond s of
        Inl e \<Rightarrow> Inl e
      | Inr cv \<Rightarrow>
         (case isBoolean cv of
            Inl e \<Rightarrow> Inl e
          | Inr c \<Rightarrow> if c then Eval thn s else Eval otherwise s))"

fun IsRoot :: "Node \<Rightarrow> eval_error + (f64 \<times> f64 \<times> f64)" where
  "IsRoot (triple p a b c) =
     (case isNumber a of
        Inl e \<Rightarrow> Inl e
      | Inr one \<Rightarrow>
         (case isNumber b of
            Inl e \<Rightarrow> Inl e
          | Inr two \<Rightarrow>
             (case isNumber c of
                Inl e \<Rightarrow> Inl e
              | Inr three \<Rightarrow> Inr (one, two, three))))"
| "IsRoot n = Inl (ValidationError n root)"

text \<open>
  \<open>S\<close> builds the state of one pixel. \<open>src.RGBA()\<close> gives the four channels of the source
  pixel as \<open>uint32\<close> values; the alpha channel is dropped.
\<close>

type_synonym Color = "32 word \<times> 32 word \<times> 32 word \<times> 32 word"

definition S :: "int \<Rightarrow> int \<Rightarrow> int \<Rightarrow> int \<Rightarrow> int \<Rightarrow> int \<Rightarrow> Color \<Rightarrow> State" where
  "S x y width height frame frames src =
     (case src of (r, g, b, a) \<Rightarrow>
        \<lparr> X = f64_sub (f64_mul (f64_div (float64 x) (float64 (width - 1))) (Fin 2)) (Fin 1),
          Y = f64_sub (f64_mul (f64_div (float64 y) (float64 (height - 1))) (Fin 2)) (Fin 1),
          F = f64_sub (f64_mul (f64_div (float64 frame) (float64 (frames - 1))) (Fin 2)) (Fin 1),
          R = f64_sub (f64_mul (f64_div (float64 (uint r)) (Fin 65535)) (Fin 2)) (Fin 1),
          G = f64_sub (f64_mul (f64_div (float64 (uint g)) (Fin 65535)) (Fin 2)) (Fin 1),
          B = f64_sub (f64_mul (f64_div (float64 (uint b)) (Fin 65535)) (Fin 2)) (Fin 1) \<rparr>)"


section \<open>Grammar templates and the weighted generator (package nodes)\<close>

text \<open>
  The standard library's \<open>slices.BinarySearch\<close>: a bisection that keeps
  \<open>x[i-1] < target\<close> and \<open>x[j] \<ge> target\<close>, and returns \<open>i\<close>.
\<close>

function BinarySearch_loop :: "real list \<Rightarrow> real \<Rightarrow> nat \<Rightarrow> nat \<Rightarrow> nat" where
  "BinarySearch_loop x target i j =
     (if i < j then
        (let h = (i + j) div 2 in
         if x ! h < target then BinarySearch_loop x target (h + 1) j
         else BinarySearch_loop x target i h)
      else i)"
  by pat_completeness auto
termination
  by (relation "measure (\<lambda>(x, target, i, j). j - i)") auto

definition BinarySearch :: "real list \<Rightarrow> real \<Rightarrow> nat" where
  "BinarySearch x target = BinarySearch_loop x target 0 (length x)"

text \<open>
  The standard library's \<open>slices.SortFunc\<close> on a slice of fewer than twelve elements is
  \<open>insertionSortCmpFunc\<close>: each element in turn moves left while \<open>cmp\<close> says it is
  smaller than its left neighbour. \<open>insertLeft\<close> takes the part already sorted in reverse
  order, so that its head is the left neighbour. (Longer slices are sorted by
  pattern-defeating quicksort; where \<open>cmp\<close> is a strict order on distinct keys both give
  the one sorted arrangement.)
\<close>

fun insertLeft :: "('a \<Rightarrow> 'a \<Rightarrow> int) \<Rightarrow> 'a \<Rightarrow> 'a list \<Rightarrow> 'a list" where
  "insertLeft cmp x [] = [x]"
| "insertLeft cmp x (y # ys) = (if cmp x y < 0 then y # insertLeft cmp x ys else x # y # ys)"

definition SortFunc :: "'a list \<Rightarrow> ('a \<Rightarrow> 'a \<Rightarrow> int) \<Rightarrow> 'a list" where
  "SortFunc data cmp = rev (foldl (\<lambda>sorted_rev x. insertLeft cmp x sorted_rev) [] data)"

text \<open>
  The templates a grammar is parsed into (\<open>Number\<close>, \<open>Bool\<close>, \<open>Component\<close>, \<open>Triplet\<close>,
  \<open>Rule\<close>, \<open>Random\<close>, \<open>Func\<close>, \<open>IfThenElse\<close>). A lexer position is kept as the file and
  line that \<open>pToP\<close> reads from it.
\<close>

datatype Alternate =
    Number pos f64
  | Bool pos bool
  | Component pos componentType
  | Triplet pos Alternate Alternate Alternate
  | Rule pos string
  | Random pos bool
  | Func pos opType Alternate Alternate
  | IfThenElse pos Alternate Alternate Alternate

text \<open>Probabilities are parsed from decimal literals, so they are finite.\<close>

record AlternateWithProb =
  Alternate :: Alternate
  Probability :: real

record Production =
  Name :: string
  Alternatives :: "AlternateWithProb list"

text \<open>\<open>production\<close>: a \<open>Production\<close> with its total mass and cumulative table.\<close>

record production =
  Production :: Production
  prod_max :: real
  totals :: "real list"

record Grammar =
  Productions :: "Production list"

record generatorStateOptions =
  Seed :: "64 word"
  MaxDepth :: int
  MaxGenerationTries :: int

text \<open>
  \<open>GeneratorState\<close>. The field \<open>seed\<close> is the random source: the sequence of values its
  \<open>Float64()\<close> returns, each in \<open>[0, 1)\<close>. The number of values drawn so far is threaded
  through the generating functions.
\<close>

record GeneratorState =
  options :: generatorStateOptions
  seed :: "nat \<Rightarrow> real"
  rules :: "string \<rightharpoonup> production"

text \<open>
  The errors of generation, and the two ways it can panic: \<open>Production.Gen\<close> on a
  production that is not in the rule table, and the index \<open>-1\<close> into an empty list of
  alternatives (\<open>Grammar.Gen\<close> likewise indexes the first production).
\<close>

datatype gen_error =
    ErrReachedMaxDepth
  | ErrReachedMaxGenerationTries
  | ErrRuleDoesNotExist string
  | ErrDefinedMultipleTimes string
  | ErrWeightsExceed string real
  | PanicNotInRules string
  | PanicIndexOutOfRange

fun is_panic :: "gen_error \<Rightarrow> bool" where
  "is_panic (PanicNotInRules n) = True"
| "is_panic PanicIndexOutOfRange = True"
| "is_panic e = False"

text \<open>\<open>errors.Is(err, ErrRuleDoesNotExist)\<close>\<close>

fun is_ErrRuleDoesNotExist :: "gen_error \<Rightarrow> bool" where
  "is_ErrRuleDoesNotExist (ErrRuleDoesNotExist n) = True"
| "is_ErrRuleDoesNotExist e = False"

text \<open>
  The sample of one try, \<open>x := state.seed.Float64() * prod.max\<close>, where \<open>n\<close> values have
  been drawn from the source before.
\<close>

definition Production_Gen_sample :: "GeneratorState \<Rightarrow> production \<Rightarrow> nat \<Rightarrow> real" where
  "Production_Gen_sample state pr n = seed state n * prod_max pr"

text \<open>
  \<open>aNo, _ := slices.BinarySearch(prod.totals, x); aNo = min(aNo, len(p.Alternatives)-1)\<close>
\<close>

definition select_aNo :: "real list \<Rightarrow> real \<Rightarrow> 'a list \<Rightarrow> int" where
  "select_aNo tots x alts = min (int (BinarySearch tots x)) (int (length alts) - 1)"

text \<open>
  The \<open>Gen\<close> methods. \<open>Alternate_Gen\<close> is the method of the eight templates,
  \<open>Production_Gen\<close> that of a production and \<open>Production_Gen_loop\<close> its loop over the tries.
  A panic unwinds through every caller; an error is a returned value.
\<close>

function Alternate_Gen :: "GeneratorState \<Rightarrow> Alternate \<Rightarrow> int \<Rightarrow> nat \<Rightarrow> (gen_error + Node) \<times> nat"
  and Production_Gen :: "GeneratorState \<Rightarrow> Production \<Rightarrow> int \<Rightarrow> nat \<Rightarrow> (gen_error + Node) \<times> nat"
  and Production_Gen_loop ::
    "GeneratorState \<Rightarrow> Production \<Rightarrow> production \<Rightarrow> int \<Rightarrow> int \<Rightarrow> nat \<Rightarrow> (gen_error + Node) \<times> nat"
where
  "Alternate_Gen state (Number p v) depth n = (Inr (valueF p v), n)"
| "Alternate_Gen state (Bool p v) depth n = (Inr (valueB p v), n)"
| "Alternate_Gen state (Component p c) depth n = (Inr (component p c), n)"
| "Alternate_Gen state (Triplet p a b c) depth n =
     (case Alternate_Gen state a depth n of
        (Inl e, n1) \<Rightarrow> (Inl e, n1)
      | (Inr one, n1) \<Rightarrow>
         (case Alternate_Gen state b depth n1 of
            (Inl e, n2) \<Rightarrow> (Inl e, n2)
          | (Inr two, n2) \<Rightarrow>
             (case Alternate_Gen state c depth n2 of
                (Inl e, n3) \<Rightarrow> (Inl e, n3)
              | (Inr three, n3) \<Rightarrow> (Inr (triple p one two three), n3))))"
| "Alternate_Gen state (Rule p name) depth n =
     (case rules state name of
        None \<Rightarrow> (Inl (ErrRuleDoesNotExist name), n)
      | Some rule \<Rightarrow> Production_Gen state (Production rule) depth n)"
| "Alternate_Gen state (Random p b) depth n = (Inr (valueF p (Fin (seed state n * 2 - 1))), Suc n)"
| "Alternate_Gen state (Func p t l r) depth n =
     (case Alternate_Gen state l depth n of
        (Inl e, n1) \<Rightarrow> (Inl e, n1)
      | (Inr left, n1) \<Rightarrow>
         (case Alternate_Gen state r depth n1 of
            (Inl e, n2) \<Rightarrow> (Inl e, n2)
          | (Inr right, n2) \<Rightarrow> (Inr (op p t left right), n2)))"
| "Alternate_Gen state (IfThenElse p c t e) depth n =
     (case Alternate_Gen state c depth n of
        (Inl err, n1) \<Rightarrow> (Inl err, n1)
      | (Inr cond, n1) \<Rightarrow>
         (case Alternate_Gen state t depth n1 of
            (Inl err, n2) \<Rightarrow> (Inl err, n2)
          | (Inr thn, n2) \<Rightarrow>
             (case Alternate_Gen state e depth n2 of
                (Inl err, n3) \<Rightarrow> (Inl err, n3)
              | (Inr otherwise, n3) \<Rightarrow> (Inr (ifThenElse p cond thn otherwise), n3))))"
| "Production_Gen state p depth n =
     (if depth \<le> 0 then (Inl ErrReachedMaxDepth, n)
      else
        (case rules state (Name p) of
           None \<Rightarrow> (Inl (PanicNotInRules (Name p)), n)
         | Some pr \<Rightarrow> Production_Gen_loop state p pr depth 0 n))"
| "Production_Gen_loop state p pr depth try n =
     (if try < MaxGenerationTries (options state) then
        (let x = Production_Gen_sample state pr n;
             aNo = select_aNo (totals pr) x (Alternatives p)
         in if aNo < 0 then (Inl PanicIndexOutOfRange, Suc n)
            else
              (case Alternate_Gen state (Alternate (Alternatives p ! nat aNo)) (depth - 1) (Suc n) of
                 (Inr node, n1) \<Rightarrow> (Inr node, n1)
               | (Inl err, n1) \<Rightarrow>
                   if is_panic err then (Inl err, n1)
                   else if is_ErrRuleDoesNotExist err then (Inl err, n1)
                   else Production_Gen_loop state p pr depth (try + 1) n1))
      else (Inl ErrReachedMaxGenerationTries, n))"
  by pat_completeness auto
termination
  by (relation "inv_image (less_than <*lex*> less_than)
        (\<lambda>c. case c of
           Inl (state, t, depth, n) \<Rightarrow>
             (2 * nat depth, nat (MaxGenerationTries (options state)) + 2 + size t)
         | Inr (Inl (state, p, depth, n)) \<Rightarrow>
             (2 * nat depth, nat (MaxGenerationTries (options state)) + 1)
         | Inr (Inr (state, p, pr, depth, try, n)) \<Rightarrow>
             (if 0 < depth then 2 * nat depth - 1 else 1,
              nat (MaxGenerationTries (options state) - try)))")
     auto


text \<open>
  \<open>Grammar.Gen\<close>. The comparison handed to \<open>slices.SortFunc\<close> converts the difference of
  two probabilities to \<open>int\<close>.
\<close>

definition cmpProbability :: "AlternateWithProb \<Rightarrow> AlternateWithProb \<Rightarrow> int" where
  "cmpProbability a b = go_trunc (Probability a - Probability b)"

text \<open>
  The loop that accumulates \<open>prod.max\<close> and fills \<open>prod.totals\<close>; \<open>Inl\<close> carries the mass
  that exceeded 1.
\<close>

fun totals_loop :: "AlternateWithProb list \<Rightarrow> real \<Rightarrow> real list \<Rightarrow> real + real \<times> real list" where
  "totals_loop [] mx tots = Inr (mx, tots)"
| "totals_loop (a # as) mx tots =
     (let mx' = mx + Probability a
      in if mx' > 1 then Inl mx' else totals_loop as mx' (tots @ [mx']))"

text \<open>
  The loop over the productions. The sort is in place, so the grammar's productions
  change with it: the function returns them beside the rule table.
\<close>

fun resolve :: "Production list \<Rightarrow> (string \<rightharpoonup> production) \<Rightarrow>
    gen_error + Production list \<times> (string \<rightharpoonup> production)" where
  "resolve [] rs = Inr ([], rs)"
| "resolve (p # ps) rs =
     (case rs (Name p) of
        Some firstProduction \<Rightarrow> Inl (ErrDefinedMultipleTimes (Name p))
      | None \<Rightarrow>
         (let p' = p\<lparr>Alternatives := SortFunc (Alternatives p) cmpProbability\<rparr>
          in case totals_loop (Alternatives p') 0 [] of
               Inl mx \<Rightarrow> Inl (ErrWeightsExceed (Name p) mx)
             | Inr (mx, tots) \<Rightarrow>
                (case resolve ps (rs(Name p \<mapsto> \<lparr>Production = p', prod_max = mx, totals = tots\<rparr>)) of
                   Inl e \<Rightarrow> Inl e
                 | Inr (ps', rs') \<Rightarrow> Inr (p' # ps', rs'))))"

text \<open>
  The generator options. \<open>FromJSON\<close>, which decodes the three fields from a reader, is left
  out. Go's \<open>int\<close> is modelled by \<open>int\<close>: the depth and the try counter move between zero
  and their bounds.
\<close>

datatype GeneratorOption = WithSeeds "64 word" | WithMaxDepth int | WithMaxGenerationTries int

fun GeneratorOption_call :: "GeneratorOption \<Rightarrow> generatorStateOptions \<Rightarrow> generatorStateOptions" where
  "GeneratorOption_call (WithSeeds s) os = os\<lparr>Seed := s\<rparr>"
| "GeneratorOption_call (WithMaxDepth d) os = os\<lparr>MaxDepth := d\<rparr>"
| "GeneratorOption_call (WithMaxGenerationTries t) os = os\<lparr>MaxGenerationTries := t\<rparr>"

text \<open>The default seed is the clock's reading, a parameter here.\<close>

definition defaultGeneratorStateOptions :: "64 word \<Rightarrow> generatorStateOptions" where
  "defaultGeneratorStateOptions now = \<lparr>Seed = now, MaxDepth = 10, MaxGenerationTries = 100\<rparr>"

text \<open>The options after the caller's option functions have run on the defaults.\<close>

definition generatorOptions :: "64 word \<Rightarrow> GeneratorOption list \<Rightarrow> generatorStateOptions" where
  "generatorOptions now opts =
     foldl (\<lambda>os f. GeneratorOption_call f os) (defaultGeneratorStateOptions now) opts"

text \<open>
  \<open>pcg s1 s2\<close> stands for \<open>rand.New(rand.NewPCG(s1, s2))\<close>: the sequence of the values
  its \<open>Float64()\<close> returns. The generator is the standard library's; it is a parameter.
\<close>

definition Grammar_Gen :: "(64 word \<Rightarrow> 64 word \<Rightarrow> nat \<Rightarrow> real) \<Rightarrow> 64 word \<Rightarrow> Grammar \<Rightarrow>
    GeneratorOption list \<Rightarrow> (gen_error + Node) \<times> GeneratorState option" where
  "Grammar_Gen pcg now g opts =
     (let opt = generatorOptions now opts
      in case resolve (Productions g) Map.empty of
           Inl e \<Rightarrow> (Inl e, None)
         | Inr (ps, rs) \<Rightarrow>
            (let s = \<lparr>options = opt, seed = pcg (Seed opt) (Seed opt + 1), rules = rs\<rparr>
             in case ps of
                  [] \<Rightarrow> (Inl PanicIndexOutOfRange, Some s)
                | p0 # _ \<Rightarrow> (fst (Production_Gen s p0 (MaxDepth opt) 0), Some s)))"

section \<open>Rendering (package render)\<close>

type_synonym RGBA = "8 word \<times> 8 word \<times> 8 word \<times> 8 word"

record Rectangle =
  MinX :: int
  MinY :: int
  MaxX :: int
  MaxY :: int

definition image_Rect :: "int \<Rightarrow> int \<Rightarrow> int \<Rightarrow> int \<Rightarrow> Rectangle" where
  "image_Rect x0 y0 x1 y1 =
     \<lparr>MinX = min x0 x1, MinY = min y0 y1, MaxX = max x0 x1, MaxY = max y0 y1\<rparr>"

definition Dx :: "Rectangle \<Rightarrow> int" where
  "Dx r = MaxX r - MinX r"

definition Dy :: "Rectangle \<Rightarrow> int" where
  "Dy r = MaxY r - MinY r"

text \<open>
  A source image: the nil interface value, an \<open>*image.Uniform\<close>, or any other image, given
  by its bounds and by what \<open>At(x, y).RGBA()\<close> returns at each point.
\<close>

datatype Image = NilImage | Uniform Color | Decoded Rectangle "int \<times> int \<Rightarrow> Color"

fun Image_At :: "Image \<Rightarrow> int \<Rightarrow> int \<Rightarrow> Color option" where
  "Image_At NilImage x y = None"
| "Image_At (Uniform c) x y = Some c"
| "Image_At (Decoded b f) x y = Some (f (x, y))"

definition color_White :: Color where
  "color_White = (0xFFFF, 0xFFFF, 0xFFFF, 0xFFFF)"

text \<open>The image a frame is drawn into: \<open>image.NewRGBA\<close>, and its \<open>Set\<close>.\<close>

record RGBAImage =
  img_Rect :: Rectangle
  img_Pix :: "int \<times> int \<Rightarrow> RGBA"

definition NewRGBA :: "Rectangle \<Rightarrow> RGBAImage" where
  "NewRGBA r = \<lparr>img_Rect = r, img_Pix = (\<lambda>_. (0, 0, 0, 0))\<rparr>"

definition RGBAImage_Set :: "RGBAImage \<Rightarrow> int \<Rightarrow> int \<Rightarrow> RGBA \<Rightarrow> RGBAImage" where
  "RGBAImage_Set m x y c =
     (if MinX (img_Rect m) \<le> x \<and> x < MaxX (img_Rect m) \<and> MinY (img_Rect m) \<le> y \<and> y < MaxY (img_Rect m)
      then m\<lparr>img_Pix := (img_Pix m)((x, y) := c)\<rparr>
      else m)"

text \<open>
  \<open>uint8(v)\<close> of a float: the fraction is discarded. Where the result does not fit, Go
  leaves the value to the implementation: \<open>oor\<close> stands for what the platform gives.
\<close>

definition uint8_of :: "(f64 \<Rightarrow> 8 word) \<Rightarrow> f64 \<Rightarrow> 8 word" where
  "uint8_of oor v =
     (case v of
        Fin a \<Rightarrow> if 0 \<le> go_trunc a \<and> go_trunc a \<le> 255 then word_of_int (go_trunc a) else oor v
      | _ \<Rightarrow> oor v)"

definition channel :: "(f64 \<Rightarrow> 8 word) \<Rightarrow> f64 \<Rightarrow> 8 word" where
  "channel oor v = uint8_of oor (f64_mul (f64_div (f64_add v (Fin 1)) (Fin 2)) (Fin 255))"

definition renderPoint :: "(f64 \<Rightarrow> 8 word) \<Rightarrow> Node \<Rightarrow> State \<Rightarrow> eval_error + RGBA" where
  "renderPoint oor rt s =
     (case Eval rt s of
        Inl e \<Rightarrow> Inl e
      | Inr n \<Rightarrow>
         (case IsRoot n of
            Inl e \<Rightarrow> Inl e
          | Inr (r, g, b) \<Rightarrow> Inr (channel oor r, channel oor g, channel oor b, 255)))"

definition points :: "int \<Rightarrow> int \<Rightarrow> (int \<times> int) list" where
  "points w h = concat (map (\<lambda>y. map (\<lambda>x. (x, y)) [0..w - 1]) [0..h - 1])"

record renderOptions =
  width :: int
  height :: int
  frames :: int
  src :: Image

datatype job_error = EvalError eval_error | PanicNilSource

record frameResult =
  frame :: int
  img :: "RGBAImage option"
  err :: "job_error option"

text \<open>The job of one frame: the pool's \<open>process\<close> function. The time taken is left out.\<close>

fun render_points :: "(f64 \<Rightarrow> 8 word) \<Rightarrow> Node \<Rightarrow> renderOptions \<Rightarrow> int \<Rightarrow> (int \<times> int) list \<Rightarrow>
    RGBAImage \<Rightarrow> job_error + RGBAImage" where
  "render_points oor rt opts fr [] m = Inr m"
| "render_points oor rt opts fr ((x, y) # ps) m =
     (case Image_At (src opts) x y of
        None \<Rightarrow> Inl PanicNilSource
      | Some c \<Rightarrow>
         (case renderPoint oor rt (S x y (width opts) (height opts) fr (frames opts) c) of
            Inl e \<Rightarrow> Inl (EvalError e)
          | Inr col \<Rightarrow> render_points oor rt opts fr ps (RGBAImage_Set m x y col)))"

definition process :: "(f64 \<Rightarrow> 8 word) \<Rightarrow> Node \<Rightarrow> renderOptions \<Rightarrow> int \<Rightarrow> frameResult" where
  "process oor rt opts fr =
     (case render_points oor rt opts fr (points (width opts) (height opts))
             (NewRGBA (image_Rect 0 0 (width opts) (height opts))) of
        Inl e \<Rightarrow> \<lparr>frame = fr, img = None, err = Some e\<rparr>
      | Inr m \<Rightarrow> \<lparr>frame = fr, img = Some m, err = None\<rparr>)"

text \<open>
  The reassembly loop of \<open>frames\<close>. What the \<open>select\<close> receives at each turn is an
  \<open>event\<close>: a result of the pool, the context's cancellation, or the closed channel. The
  order of the events is the scheduler's, so the list of events is a parameter. The
  consumer is one that keeps pulling: were it to stop, the loop would return at that
  \<open>yield\<close>, and the consumer would have seen a prefix of the list computed here.
  The times taken, and the statistics logged from them after the loop, are left out
  (\<open>apply\<close> rejects a number of frames below one, so a completed loop has read a result).
\<close>

datatype event = Result frameResult | CtxDone | ChanClosed

datatype frames_error = FrameError job_error | ContextError | ResultChannelClosed

type_synonym yielded = "RGBAImage option \<times> frames_error option"

text \<open>
  How the loop ends: its condition fails (\<open>Completed\<close>), it returns after yielding an error
  (\<open>Aborted\<close>), or it waits for an event that never comes (\<open>Blocked\<close>).
\<close>

datatype loop_end = Completed | Aborted | Blocked

definition cmpFrame :: "frameResult \<Rightarrow> frameResult \<Rightarrow> int" where
  "cmpFrame a b = frame a - frame b"

text \<open>The inner loop that empties the buffer while its head is the expected frame.\<close>

fun drain :: "int \<Rightarrow> frameResult list \<Rightarrow> RGBAImage option list \<times> int \<times> frameResult list" where
  "drain expectedFrame [] = ([], expectedFrame, [])"
| "drain expectedFrame (f # buf) =
     (if frame f \<noteq> expectedFrame then ([], expectedFrame, f # buf)
      else
        (case drain (expectedFrame + 1) buf of
           (ys, e, buf') \<Rightarrow> (img f # ys, e, buf')))"

fun frames_loop :: "int \<Rightarrow> int \<Rightarrow> frameResult list \<Rightarrow> event list \<Rightarrow> yielded list \<times> loop_end" where
  "frames_loop n expectedFrame buf [] =
     (if expectedFrame < n then ([], Blocked) else ([], Completed))"
| "frames_loop n expectedFrame buf (ev # evs) =
     (if expectedFrame < n then
        (case ev of
           CtxDone \<Rightarrow> ([(None, Some ContextError)], Aborted)
         | ChanClosed \<Rightarrow> ([(None, Some ResultChannelClosed)], Aborted)
         | Result result \<Rightarrow>
            (case err result of
               Some e \<Rightarrow> ([(None, Some (FrameError e))], Aborted)
             | None \<Rightarrow>
                if frame result \<noteq> expectedFrame
                then frames_loop n expectedFrame (SortFunc (buf @ [result]) cmpFrame) evs
                else
                  (case drain (expectedFrame + 1) buf of
                     (ys, e, buf') \<Rightarrow>
                       (case frames_loop n e buf' evs of
                          (out, how) \<Rightarrow>
                            ((img result, None) # map (\<lambda>i. (i, None)) ys @ out, how)))))
      else ([], Completed))"

text \<open>
  \<open>frames\<close>: the pool runs \<open>process\<close> on every frame index it is fed, and its results
  arrive in the scheduler's order, given as a list of arrivals.
\<close>

datatype arrival = JobDone int | Cancelled | ResultsClosed

fun event_of :: "(f64 \<Rightarrow> 8 word) \<Rightarrow> Node \<Rightarrow> renderOptions \<Rightarrow> arrival \<Rightarrow> event" where
  "event_of oor rt opts (JobDone fr) = Result (process oor rt opts fr)"
| "event_of oor rt opts Cancelled = CtxDone"
| "event_of oor rt opts ResultsClosed = ChanClosed"

definition frames_seq :: "(f64 \<Rightarrow> 8 word) \<Rightarrow> Node \<Rightarrow> renderOptions \<Rightarrow> arrival list \<Rightarrow>
    yielded list \<times> loop_end" where
  "frames_seq oor rt opts arrivals =
     frames_loop (frames opts) 0 [] (map (event_of oor rt opts) arrivals)"

text \<open>
  The render options. \<open>WithSourceImage\<close> carries what \<open>image.Decode\<close> returns for its
  reader: an error (and the nil image), or the decoded image. \<open>WithLogger\<close> sets the
  function that prints the statistics, which is not part of the state modelled here.
\<close>

datatype RenderOption =
    WithResolution int int
  | WithFrames int
  | WithSourceImage "string + Image"
  | WithLogger

datatype apply_error =
    DecodeError string
  | FramesNotPositive
  | WidthNotPositive
  | HeightNotPositive
  | PanicNilImage

fun RenderOption_call :: "RenderOption \<Rightarrow> renderOptions \<Rightarrow> renderOptions \<times> apply_error option" where
  "RenderOption_call (WithResolution w h) r = (r\<lparr>width := w, height := h\<rparr>, None)"
| "RenderOption_call (WithFrames k) r = (r\<lparr>frames := k\<rparr>, None)"
| "RenderOption_call (WithSourceImage (Inl e)) r = (r\<lparr>src := NilImage\<rparr>, Some (DecodeError e))"
| "RenderOption_call (WithSourceImage (Inr m)) r = (r\<lparr>src := m\<rparr>, None)"
| "RenderOption_call WithLogger r = (r, None)"

fun apply_opts :: "RenderOption list \<Rightarrow> renderOptions \<Rightarrow> renderOptions \<times> apply_error option" where
  "apply_opts [] r = (r, None)"
| "apply_opts (opt # opts) r =
     (case RenderOption_call opt r of
        (r1, Some e) \<Rightarrow> (r1, Some e)
      | (r1, None) \<Rightarrow> apply_opts opts r1)"

definition validate :: "renderOptions \<Rightarrow> renderOptions \<times> apply_error option" where
  "validate r =
     (if frames r \<le> 0 then (r, Some FramesNotPositive)
      else if width r \<le> 0 then (r, Some WidthNotPositive)
      else if height r \<le> 0 then (r, Some HeightNotPositive)
      else (r, None))"

definition renderOptions_apply :: "renderOptions \<Rightarrow> RenderOption list \<Rightarrow> renderOptions \<times> apply_error option" where
  "renderOptions_apply r opts =
     (case apply_opts opts r of
        (r1, Some e) \<Rightarrow> (r1, Some e)
      | (r1, None) \<Rightarrow>
         (case src r1 of
            NilImage \<Rightarrow> (r1, Some PanicNilImage)
          | Uniform c \<Rightarrow> validate r1
          | Decoded b f \<Rightarrow> validate (r1\<lparr>width := Dx b, height := Dy b\<rparr>)))"

definition defaultRenderOptions :: renderOptions where
  "defaultRenderOptions = \<lparr>width = 400, height = 400, frames = 1, src = Uniform color_White\<rparr>"

datatype render_error = ApplyError apply_error | FramesError frames_error

text \<open>
  \<open>Render\<close> pulls the first element of the sequence and stops. \<open>None\<close> stands for a call
  that does not return: the loop waits for a result before it has yielded anything.
\<close>

definition Render :: "(f64 \<Rightarrow> 8 word) \<Rightarrow> Node \<Rightarrow> RenderOption list \<Rightarrow> arrival list \<Rightarrow>
    (RGBAImage option \<times> render_error option) option" where
  "Render oor rt opts arrivals =
     (case renderOptions_apply defaultRenderOptions opts of
        (r, Some e) \<Rightarrow> Some (None, Some (ApplyError e))
      | (r, None) \<Rightarrow>
         (case frames_seq oor rt r arrivals of
            ([], Blocked) \<Rightarrow> None
          | ([], how) \<Rightarrow> Some (None, None)
          | ((m, e) # ys, how) \<Rightarrow> Some (m, map_option FramesError e)))"


section \<open>Notions used in the statements\<close>

text \<open>A template that contains a reference to a rule, and the names it refers to.\<close>

fun has_rule :: "Alternate \<Rightarrow> bool" where
  "has_rule (Rule p name) = True"
| "has_rule (Triplet p a b c) = (has_rule a \<or> has_rule b \<or> has_rule c)"
| "has_rule (Func p t l r) = (has_rule l \<or> has_rule r)"
| "has_rule (IfThenElse p c t e) = (has_rule c \<or> has_rule t \<or> has_rule e)"
| "has_rule t = False"

fun rule_names :: "Alternate \<Rightarrow> string set" where
  "rule_names (Rule p name) = {name}"
| "rule_names (Triplet p a b c) = rule_names a \<union> rule_names b \<union> rule_names c"
| "rule_names (Func p t l r) = rule_names l \<union> rule_names r"
| "rule_names (IfThenElse p c t e) = rule_names c \<union> rule_names t \<union> rule_names e"
| "rule_names t = {}"

text \<open>
  A production without a base case: it has alternatives, and each of them refers to a rule
  among \<open>names\<close>. A grammar without a base case has only such productions, and a rule
  table likewise.
\<close>

definition recursive_only :: "string set \<Rightarrow> Production \<Rightarrow> bool" where
  "recursive_only names p =
     (Name p \<in> names \<and> Alternatives p \<noteq> [] \<and>
      list_all (\<lambda>a. has_rule (Alternate a) \<and> rule_names (Alternate a) \<subseteq> names) (Alternatives p))"

definition rules_recursive_only :: "GeneratorState \<Rightarrow> bool" where
  "rules_recursive_only state =
     (\<forall>name pr. rules state name = Some pr \<longrightarrow> recursive_only (dom (rules state)) (Production pr))"

text \<open>A result that is the max-depth or the max-tries error.\<close>

definition depth_or_tries :: "gen_error + Node \<Rightarrow> bool" where
  "depth_or_tries r = (r = Inl ErrReachedMaxDepth \<or> r = Inl ErrReachedMaxGenerationTries)"

definition no_base_case :: "Grammar \<Rightarrow> bool" where
  "no_base_case g = list_all (recursive_only (Name ` set (Productions g))) (Productions g)"

text \<open>
  What a production's \<open>Gen\<close> returns of its own: a node, the error of its exhausted tries,
  the error of an undefined rule, or a panic.
\<close>

definition own_result :: "gen_error + Node \<Rightarrow> bool" where
  "own_result r =
     (case r of
        Inr node \<Rightarrow> True
      | Inl e \<Rightarrow> e = ErrReachedMaxGenerationTries \<or> is_ErrRuleDoesNotExist e \<or> is_panic e)"

text \<open>
  What the options ask for: the resolution of the last \<open>WithResolution\<close>, the image of
  the last \<open>WithSourceImage\<close>, and whether an option's decoding succeeds.
\<close>

fun requested_resolution :: "RenderOption list \<Rightarrow> int \<times> int \<Rightarrow> int \<times> int" where
  "requested_resolution [] wh = wh"
| "requested_resolution (WithResolution w h # opts) wh = requested_resolution opts (w, h)"
| "requested_resolution (opt # opts) wh = requested_resolution opts wh"

fun supplied_source :: "RenderOption list \<Rightarrow> Image \<Rightarrow> Image" where
  "supplied_source [] m = m"
| "supplied_source (WithSourceImage (Inr m') # opts) m = supplied_source opts m'"
| "supplied_source (opt # opts) m = supplied_source opts m"

fun decodes :: "RenderOption \<Rightarrow> bool" where
  "decodes (WithSourceImage (Inl e)) = False"
| "decodes opt = True"

text \<open>
  The first index of a table whose entry is greater than or equal to \<open>x\<close>, searched from
  the left; the length of the table when no entry is.
\<close>

fun first_index_at_least :: "real list \<Rightarrow> real \<Rightarrow> nat" where
  "first_index_at_least [] x = 0"
| "first_index_at_least (t # ts) x = (if x \<le> t then 0 else Suc (first_index_at_least ts x))"

section \<open>Example inputs\<close>

definition example_pos :: pos where
  "example_pos = \<lparr>pos_file = ''grammar.bnf'', pos_line = 1\<rparr>"

text \<open>
  The tree that \<open>S ::= {?, ?, ?} %1.0 .\<close> generates from the draws \<open>d\<close> of the random
  source (the first draw, \<open>d 0\<close>, selects the alternative), and the colour it renders to.
\<close>

definition baked_root :: "(nat \<Rightarrow> real) \<Rightarrow> Node" where
  "baked_root d =
     triple example_pos (valueF example_pos (Fin (d 1 * 2 - 1)))
       (valueF example_pos (Fin (d 2 * 2 - 1))) (valueF example_pos (Fin (d 3 * 2 - 1)))"

definition baked_colour :: "(nat \<Rightarrow> real) \<Rightarrow> RGBA" where
  "baked_colour d =
     (word_of_int \<lfloor>d 1 * 255\<rfloor>, word_of_int \<lfloor>d 2 * 255\<rfloor>, word_of_int \<lfloor>d 3 * 255\<rfloor>, 255)"

text \<open>A state, grammars, random sources, rule tables, images and roots for the examples.\<close>

definition example_state :: State where
  "example_state = S 0 1 2 2 0 2 color_White"

definition grammar_two_weights :: Grammar where
  "grammar_two_weights =
     \<lparr>Productions =
        [\<lparr>Name = ''S'',
          Alternatives =
            [\<lparr>Alternate = Component example_pos ''x'', Probability = 1 / 2\<rparr>,
             \<lparr>Alternate = Component example_pos ''y'', Probability = 1 / 4\<rparr>]\<rparr>]\<rparr>"

definition grammar_self_recursive :: Grammar where
  "grammar_self_recursive =
     \<lparr>Productions =
        [\<lparr>Name = ''S'', Alternatives = [\<lparr>Alternate = Rule example_pos ''S'', Probability = 1\<rparr>]\<rparr>]\<rparr>"

definition grammar_inner_rule :: Grammar where
  "grammar_inner_rule =
     \<lparr>Productions =
        [\<lparr>Name = ''S'', Alternatives = [\<lparr>Alternate = Rule example_pos ''A'', Probability = 1\<rparr>]\<rparr>,
         \<lparr>Name = ''A'',
          Alternatives =
            [\<lparr>Alternate = Rule example_pos ''A'', Probability = 1 / 2\<rparr>,
             \<lparr>Alternate = Component example_pos ''x'', Probability = 1 / 2\<rparr>]\<rparr>]\<rparr>"

definition draws_inner_rule :: "64 word \<Rightarrow> 64 word \<Rightarrow> nat \<Rightarrow> real" where
  "draws_inner_rule s1 s2 n = (if n = 4 then 3 / 4 else 0)"

definition draws_zero :: "64 word \<Rightarrow> 64 word \<Rightarrow> nat \<Rightarrow> real" where
  "draws_zero s1 s2 n = 0"

definition production_S :: Production where
  "production_S = \<lparr>Name = ''S'', Alternatives = [\<lparr>Alternate = Rule example_pos ''A'', Probability = 1\<rparr>]\<rparr>"

definition production_A :: Production where
  "production_A =
     \<lparr>Name = ''A'',
      Alternatives =
        [\<lparr>Alternate = Rule example_pos ''A'', Probability = 1 / 2\<rparr>,
         \<lparr>Alternate = Component example_pos ''x'', Probability = 1 / 2\<rparr>]\<rparr>"

definition entry_S :: production where
  "entry_S = \<lparr>Production = production_S, prod_max = 1, totals = [1]\<rparr>"

definition entry_A :: production where
  "entry_A = \<lparr>Production = production_A, prod_max = 1, totals = [1 / 2, 1]\<rparr>"

definition state_inner_rule :: GeneratorState where
  "state_inner_rule =
     \<lparr>options = \<lparr>Seed = 0, MaxDepth = 2, MaxGenerationTries = 2\<rparr>,
      seed = draws_inner_rule 0 1,
      rules = [''S'' \<mapsto> entry_S, ''A'' \<mapsto> entry_A]\<rparr>"

definition example_source :: Image where
  "example_source = Decoded (image_Rect 0 0 3 2) (\<lambda>xy. color_White)"

definition grammar_zero_mass :: Grammar where
  "grammar_zero_mass =
     \<lparr>Productions =
        [\<lparr>Name = ''S'',
          Alternatives =
            [\<lparr>Alternate = Component example_pos ''x'', Probability = 0\<rparr>,
             \<lparr>Alternate = Component example_pos ''y'', Probability = 0\<rparr>]\<rparr>]\<rparr>"

definition draws_half :: "64 word \<Rightarrow> 64 word \<Rightarrow> nat \<Rightarrow> real" where
  "draws_half s1 s2 n = 1 / 2"

definition example_oor :: "f64 \<Rightarrow> 8 word" where
  "example_oor v = 0"

definition root_constant :: Node where
  "root_constant =
     triple example_pos (valueF example_pos (Fin 0)) (valueF example_pos (Fin 0))
       (valueF example_pos (Fin 0))"

definition root_fails_early :: Node where
  "root_fails_early =
     ifThenElse example_pos
       (op example_pos ''gt'' (component example_pos ''f'') (valueF example_pos (Fin 0)))
       root_constant (valueF example_pos (Fin 0))"

definition options_frames :: "int \<Rightarrow> renderOptions" where
  "options_frames k = \<lparr>width = 1, height = 1, frames = k, src = Uniform color_White\<rparr>"

definition grammar_random :: Grammar where
  "grammar_random =
     \<lparr>Productions =
        [\<lparr>Name = ''S'',
          Alternatives =
            [\<lparr>Alternate = Triplet example_pos (Random example_pos True) (Random example_pos True)
                 (Random example_pos True),
              Probability = 1\<rparr>]\<rparr>]\<rparr>"

text \<open>
  The production \<open>S ::= x %0.25 | y %0.25 .\<close> with its entry of the rule table (total mass
  \<open>1 / 2\<close>), a state whose source draws \<open>2 / 5\<close>, and one whose source returns \<open>4\<close>, a
  value that no draw has, so that the sample lies beyond the table.
\<close>

definition production_quarters :: Production where
  "production_quarters =
     \<lparr>Name = ''S'',
      Alternatives =
        [\<lparr>Alternate = Component example_pos ''x'', Probability = 1 / 4\<rparr>,
         \<lparr>Alternate = Component example_pos ''y'', Probability = 1 / 4\<rparr>]\<rparr>"

definition entry_quarters :: production where
  "entry_quarters = \<lparr>Production = production_quarters, prod_max = 1 / 2, totals = [1 / 4, 1 / 2]\<rparr>"

definition state_quarters :: GeneratorState where
  "state_quarters =
     \<lparr>options = \<lparr>Seed = 42, MaxDepth = 2, MaxGenerationTries = 2\<rparr>,
      seed = (\<lambda>n. 2 / 5),
      rules = [''S'' \<mapsto> entry_quarters]\<rparr>"

definition state_beyond :: GeneratorState where
  "state_beyond = state_quarters \<lparr>seed := (\<lambda>n. 4)\<rparr>"

section \<open>Properties of evaluation\<close>

text \<open>
  C6. Evaluating an if-then-else whose condition evaluates to \<open>true\<close> is evaluating its
  then branch, whatever the else branch is (so an else branch that fails alone does not
  make it fail); with \<open>false\<close> it is evaluating the else branch, whatever the then branch is.
\<close>

theorem ifThenElse_Eval_short_circuit:
  "(Eval cond s = Inr (valueB q True) \<longrightarrow>
      Eval (ifThenElse p cond thn otherwise) s = Eval thn s) \<and>
   (Eval cond s = Inr (valueB q False) \<longrightarrow>
      Eval (ifThenElse p cond thn otherwise) s = Eval otherwise s)"
  by simp

theorem ifThenElse_Eval_short_circuit_witness:
  "Eval (component example_pos ''z'') example_state = Inl (PanicNotAComponent ''z'') \<and>
   Eval (ifThenElse example_pos (valueB example_pos True) (valueF example_pos (Fin 1))
           (component example_pos ''z'')) example_state = Inr (valueF example_pos (Fin 1)) \<and>
   Eval (ifThenElse example_pos (valueB example_pos False) (component example_pos ''z'')
           (valueF example_pos (Fin 1))) example_state = Inr (valueF example_pos (Fin 1))"
proof -
  have t: "Eval (valueB example_pos True) example_state = Inr (valueB example_pos True)"
    and f: "Eval (valueB example_pos False) example_state = Inr (valueB example_pos False)"
    by simp_all
  have bad: "Eval (component example_pos ''z'') example_state = Inl (PanicNotAComponent ''z'')"
    by (simp add: State_component_def)
  have "Eval (ifThenElse example_pos (valueB example_pos True) (valueF example_pos (Fin 1))
           (component example_pos ''z'')) example_state = Eval (valueF example_pos (Fin 1)) example_state"
    using ifThenElse_Eval_short_circuit [of "valueB example_pos True" example_state example_pos
        example_pos "valueF example_pos (Fin 1)" "component example_pos ''z''"] t by blast
  moreover have "Eval (ifThenElse example_pos (valueB example_pos False) (component example_pos ''z'')
           (valueF example_pos (Fin 1))) example_state = Eval (valueF example_pos (Fin 1)) example_state"
    using ifThenElse_Eval_short_circuit [of "valueB example_pos False" example_state example_pos
        example_pos "component example_pos ''z''" "valueF example_pos (Fin 1)"] f by blast
  ultimately show ?thesis using bad by simp
qed


text \<open>
  C2. With two or more elements on each axis the index is mapped linearly onto
  \<open>[-1, 1]\<close>.
\<close>

lemma S_axes_linear:
  assumes "2 \<le> w" "2 \<le> h" "2 \<le> k"
  shows "X (S x y w h fr k c) = Fin (2 * real_of_int x / real_of_int (w - 1) - 1)"
    and "Y (S x y w h fr k c) = Fin (2 * real_of_int y / real_of_int (h - 1) - 1)"
    and "F (S x y w h fr k c) = Fin (2 * real_of_int fr / real_of_int (k - 1) - 1)"
  using assms by (auto simp add: S_def float64_def f64_sub_def split: prod.splits)


text \<open>
  C2. An axis of one element divides zero by zero: \<open>S\<close> does not panic, and the coordinate
  is NaN, neither \<open>0\<close> nor \<open>-1\<close>. The default number of frames is one.
\<close>

theorem S_single_element_axis_is_NaN:
  "S 0 0 1 1 0 1 color_White = \<lparr>X = NaN, Y = NaN, F = NaN, R = Fin 1, G = Fin 1, B = Fin 1\<rparr>"
  by (simp add: S_def color_White_def float64_def f64_sub_def)


section \<open>Properties of generation\<close>

declare Production_Gen_loop.simps [simp del]
declare BinarySearch_loop.simps [simp del]

text \<open>
  C3. The comparison truncates the difference of two probabilities to an integer, so two
  alternatives whose probabilities differ by less than one compare as equal, and the sort
  leaves them where they are: after the resolution of \<open>S ::= x %0.5 | y %0.25 .\<close> the
  alternatives are still in the order 0.5, 0.25.
\<close>

theorem resolve_leaves_alternatives_unsorted:
  "cmpProbability \<lparr>Alternate = Component example_pos ''y'', Probability = 1 / 4\<rparr>
      \<lparr>Alternate = Component example_pos ''x'', Probability = 1 / 2\<rparr> = 0 \<and>
   (case resolve (Productions grammar_two_weights) Map.empty of
      Inl e \<Rightarrow> []
    | Inr (ps, rs) \<Rightarrow> map (\<lambda>p. map Probability (Alternatives p)) ps) = [[1 / 2, 1 / 4]]"
  by code_simp


subsection \<open>Grammars without a base case\<close>

lemma select_aNo_range:
  "alts \<noteq> [] \<Longrightarrow> 0 \<le> select_aNo tots x alts \<and> nat (select_aNo tots x alts) < length alts"
  by (cases alts) (auto simp add: select_aNo_def min_def)

lemma recursive_only_gen:
  fixes state :: GeneratorState
  assumes ro: "rules_recursive_only state"
  shows "rule_names t \<subseteq> dom (rules state) \<Longrightarrow>
           (if has_rule t then depth_or_tries (fst (Alternate_Gen state t depth n))
            else \<exists>node. fst (Alternate_Gen state t depth n) = Inr node)"
    and "recursive_only (dom (rules state)) p \<Longrightarrow>
           fst (Production_Gen state p depth n) =
             Inl (if depth \<le> 0 then ErrReachedMaxDepth else ErrReachedMaxGenerationTries)"
    and "recursive_only (dom (rules state)) p \<Longrightarrow> 0 < depth \<Longrightarrow>
           fst (Production_Gen_loop state p pr depth try n) = Inl ErrReachedMaxGenerationTries"
  using ro
proof (induction state t depth n and state p depth n and state p pr depth "try" n
    rule: Alternate_Gen_Production_Gen_Production_Gen_loop.induct)
  case (4 state p a b c depth n)
  obtain r1 n1 where a: "Alternate_Gen state a depth n = (r1, n1)" by force
  obtain r2 n2 where b: "Alternate_Gen state b depth n1 = (r2, n2)" by force
  obtain r3 n3 where c: "Alternate_Gen state c depth n2 = (r3, n3)" by force
  have sub: "rule_names a \<subseteq> dom (rules state)" "rule_names b \<subseteq> dom (rules state)"
    "rule_names c \<subseteq> dom (rules state)"
    using "4.prems"(1) by auto
  note ia = "4.IH"(1) [OF sub(1) "4.prems"(2)]
  show ?case
  proof (cases "has_rule a")
    case True
    then show ?thesis using ia a by (auto simp add: depth_or_tries_def)
  next
    case na: False
    then obtain one where r1: "r1 = Inr one" using ia a by auto
    note ib = "4.IH"(2) [OF a [symmetric] r1 sub(2) "4.prems"(2)]
    show ?thesis
    proof (cases "has_rule b")
      case True
      then show ?thesis using ib a b r1 by (auto simp add: depth_or_tries_def)
    next
      case nb: False
      then obtain two where r2: "r2 = Inr two" using ib b by auto
      note ic = "4.IH"(3) [OF a [symmetric] r1 b [symmetric] r2 sub(3) "4.prems"(2)]
      show ?thesis using ic a b c r1 r2 na nb
        by (cases "has_rule c") (auto simp add: depth_or_tries_def split: sum.splits)
    qed
  qed
next
  case (5 state p name depth n)
  then obtain pr where pr: "rules state name = Some pr" by auto
  have "recursive_only (dom (rules state)) (Production pr)"
    using "5.prems"(2) pr by (auto simp add: rules_recursive_only_def)
  then show ?case using "5.IH" [OF pr _ "5.prems"(2)] pr
    by (auto simp add: depth_or_tries_def)
next
  case (7 state p t l r depth n)
  obtain r1 n1 where a: "Alternate_Gen state l depth n = (r1, n1)" by force
  obtain r2 n2 where b: "Alternate_Gen state r depth n1 = (r2, n2)" by force
  have sub: "rule_names l \<subseteq> dom (rules state)" "rule_names r \<subseteq> dom (rules state)"
    using "7.prems"(1) by auto
  note ia = "7.IH"(1) [OF sub(1) "7.prems"(2)]
  show ?case
  proof (cases "has_rule l")
    case True
    then show ?thesis using ia a by (auto simp add: depth_or_tries_def)
  next
    case na: False
    then obtain one where r1: "r1 = Inr one" using ia a by auto
    note ib = "7.IH"(2) [OF a [symmetric] r1 sub(2) "7.prems"(2)]
    show ?thesis using ib a b r1 na
      by (cases "has_rule r") (auto simp add: depth_or_tries_def split: sum.splits)
  qed
next
  case (8 state p c t e depth n)
  obtain r1 n1 where a: "Alternate_Gen state c depth n = (r1, n1)" by force
  obtain r2 n2 where b: "Alternate_Gen state t depth n1 = (r2, n2)" by force
  obtain r3 n3 where c: "Alternate_Gen state e depth n2 = (r3, n3)" by force
  have sub: "rule_names c \<subseteq> dom (rules state)" "rule_names t \<subseteq> dom (rules state)"
    "rule_names e \<subseteq> dom (rules state)"
    using "8.prems"(1) by auto
  note ia = "8.IH"(1) [OF sub(1) "8.prems"(2)]
  show ?case
  proof (cases "has_rule c")
    case True
    then show ?thesis using ia a by (auto simp add: depth_or_tries_def)
  next
    case na: False
    then obtain one where r1: "r1 = Inr one" using ia a by auto
    note ib = "8.IH"(2) [OF a [symmetric] r1 sub(2) "8.prems"(2)]
    show ?thesis
    proof (cases "has_rule t")
      case True
      then show ?thesis using ib a b r1 by (auto simp add: depth_or_tries_def)
    next
      case nb: False
      then obtain two where r2: "r2 = Inr two" using ib b by auto
      note ic = "8.IH"(3) [OF a [symmetric] r1 b [symmetric] r2 sub(3) "8.prems"(2)]
      show ?thesis using ic a b c r1 r2 na nb
        by (cases "has_rule e") (auto simp add: depth_or_tries_def split: sum.splits)
    qed
  qed
next
  case (9 state p depth n)
  show ?case
  proof (cases "depth \<le> 0")
    case True
    then show ?thesis by simp
  next
    case False
    from "9.prems"(1) obtain pr where pr: "rules state (Name p) = Some pr"
      by (auto simp add: recursive_only_def)
    show ?thesis using "9.IH" [OF False pr "9.prems"(1) _ "9.prems"(2)] False pr by simp
  qed
next
  case (10 state p pr depth "try" n)
  show ?case
  proof (cases "try < MaxGenerationTries (options state)")
    case False
    then show ?thesis by (subst Production_Gen_loop.simps) simp
  next
    case True
    define aNo where "aNo = select_aNo (totals pr) (Production_Gen_sample state pr n) (Alternatives p)"
    have ne: "Alternatives p \<noteq> []" using "10.prems"(1) by (simp add: recursive_only_def)
    have rng: "0 \<le> aNo" "nat aNo < length (Alternatives p)"
      using select_aNo_range [OF ne] by (simp_all add: aNo_def)
    then have mem: "Alternatives p ! nat aNo \<in> set (Alternatives p)" by simp
    have alt: "has_rule (Alternate (Alternatives p ! nat aNo))"
      "rule_names (Alternate (Alternatives p ! nat aNo)) \<subseteq> dom (rules state)"
      using "10.prems"(1) mem by (auto simp add: recursive_only_def list_all_iff)
    have nneg: "\<not> aNo < 0" using rng by simp
    obtain r n1 where att:
      "Alternate_Gen state (Alternate (Alternatives p ! nat aNo)) (depth - 1) (Suc n) = (r, n1)"
      by force
    have "depth_or_tries r"
      using "10.IH"(1) [OF True refl refl, folded aNo_def, OF nneg alt(2) "10.prems"(3)] alt(1) att
      by simp
    then obtain e where e: "r = Inl e" "\<not> is_panic e" "\<not> is_ErrRuleDoesNotExist e"
      by (auto simp add: depth_or_tries_def)
    have next_try: "fst (Production_Gen_loop state p pr depth (try + 1) n1) = Inl ErrReachedMaxGenerationTries"
      using "10.IH"(2) [OF True refl refl, folded aNo_def, OF nneg att [symmetric] e(1) e(2) e(3)
          "10.prems"(1) "10.prems"(2) "10.prems"(3)] .
    show ?thesis
      using True nneg att e next_try
      by (subst Production_Gen_loop.simps) (simp add: aNo_def [symmetric] Let_def)
  qed
qed simp_all


lemma mset_insertLeft: "mset (insertLeft cmp x ys) = add_mset x (mset ys)"
  by (induction ys) simp_all

lemma mset_foldl_insertLeft:
  "mset (foldl (\<lambda>sorted_rev x. insertLeft cmp x sorted_rev) acc xs) = mset acc + mset xs"
  by (induction xs arbitrary: acc) (simp_all add: mset_insertLeft)

lemma mset_SortFunc: "mset (SortFunc xs cmp) = mset xs"
  by (simp add: SortFunc_def mset_foldl_insertLeft)

lemma set_SortFunc: "set (SortFunc xs cmp) = set xs"
  using mset_SortFunc [of xs cmp] by (rule mset_eq_setD)

lemma resolve_invariant:
  "resolve ps rs0 = Inr (ps', rs') \<Longrightarrow>
     list_all2 (\<lambda>p' p. Name p' = Name p \<and> set (Alternatives p') = set (Alternatives p)) ps' ps \<and>
     dom rs' = dom rs0 \<union> Name ` set ps \<and>
     (\<forall>name pr. rs' name = Some pr \<longrightarrow> rs0 name = Some pr \<or> Production pr \<in> set ps')"
proof (induction ps arbitrary: rs0 ps' rs')
  case Nil
  then show ?case by auto
next
  case (Cons p ps)
  define p1 where "p1 = p\<lparr>Alternatives := SortFunc (Alternatives p) cmpProbability\<rparr>"
  from Cons.prems have fresh: "rs0 (Name p) = None"
    by (auto split: option.splits)
  from Cons.prems fresh obtain mx tots where tl: "totals_loop (Alternatives p1) 0 [] = Inr (mx, tots)"
    by (cases "totals_loop (Alternatives p1) 0 []") (auto simp add: p1_def Let_def)
  define rs1 where "rs1 = rs0(Name p \<mapsto> \<lparr>Production = p1, prod_max = mx, totals = tots\<rparr>)"
  from Cons.prems fresh tl obtain ps1 where rest: "resolve ps rs1 = Inr (ps1, rs')"
    and ps': "ps' = p1 # ps1"
    by (auto simp add: p1_def [symmetric] rs1_def [symmetric] Let_def split: sum.splits)
  note ih = Cons.IH [OF rest]
  have p1: "Name p1 = Name p" "set (Alternatives p1) = set (Alternatives p)"
    by (simp_all add: p1_def set_SortFunc)
  have "\<forall>name pr. rs' name = Some pr \<longrightarrow> rs0 name = Some pr \<or> Production pr \<in> set ps'"
  proof (intro allI impI)
    fix name pr
    assume "rs' name = Some pr"
    then have "rs1 name = Some pr \<or> Production pr \<in> set ps1" using ih by blast
    then show "rs0 name = Some pr \<or> Production pr \<in> set ps'"
      by (auto simp add: rs1_def ps' split: if_splits)
  qed
  moreover have "dom rs' = dom rs0 \<union> Name ` set (p # ps)"
    using ih by (auto simp add: rs1_def)
  ultimately show ?case using ih p1 by (simp add: ps')
qed

lemma Grammar_Gen_accepted_without_base_case:
  assumes nb: "no_base_case g" and ne: "Productions g \<noteq> []"
    and res: "resolve (Productions g) Map.empty = Inr (ps, rs)"
  shows "fst (Grammar_Gen pcg now g opts) =
           Inl (if MaxDepth (generatorOptions now opts) \<le> 0 then ErrReachedMaxDepth
                else ErrReachedMaxGenerationTries)"
proof -
  define opt where "opt = generatorOptions now opts"
  define s where "s = \<lparr>options = opt, seed = pcg (Seed opt) (Seed opt + 1), rules = rs\<rparr>"
  note inv = resolve_invariant [OF res]
  have dom: "dom rs = Name ` set (Productions g)" using inv by simp
  have all2: "list_all2 (\<lambda>p' p. Name p' = Name p \<and> set (Alternatives p') = set (Alternatives p))
                ps (Productions g)"
    using inv by simp
  have ro: "recursive_only (dom rs) p'" if "p' \<in> set ps" for p'
  proof -
    from that obtain i where i: "i < length ps" "ps ! i = p'"
      by (auto simp add: in_set_conv_nth)
    have len: "length ps = length (Productions g)" using all2 by (rule list_all2_lengthD)
    define p where "p = Productions g ! i"
    have p: "p \<in> set (Productions g)" "Name p' = Name p"
      "set (Alternatives p') = set (Alternatives p)"
      using list_all2_nthD [OF all2 i(1)] i len by (simp_all add: p_def)
    have "recursive_only (dom rs) p" using nb p(1) by (simp add: no_base_case_def list_all_iff dom)
    then show ?thesis using p(2,3)
      by (auto simp add: recursive_only_def list_all_iff)
  qed
  have rro: "rules_recursive_only s"
    using inv ro by (auto simp add: rules_recursive_only_def s_def)
  from all2 ne obtain p0 rest where ps: "ps = p0 # rest"
    by (cases ps) auto
  have "recursive_only (dom (rules s)) p0" using ro ps by (simp add: s_def)
  then have main: "fst (Production_Gen s p0 (MaxDepth opt) 0) =
      Inl (if MaxDepth opt \<le> 0 then ErrReachedMaxDepth else ErrReachedMaxGenerationTries)"
    using recursive_only_gen(2) [OF rro] by blast
  have "Grammar_Gen pcg now g opts = (fst (Production_Gen s p0 (MaxDepth opt) 0), Some s)"
    using res ps
    by (simp add: Grammar_Gen_def generatorOptions_def opt_def s_def Let_def
        del: Production_Gen.simps)
  then show ?thesis using main by (simp add: opt_def del: Production_Gen.simps)
qed

text \<open>
  C4. For a grammar each of whose alternatives refers to a rule of the grammar, generation
  returns (the functions are total) and returns an error: the error of the resolution if
  the grammar is rejected there, else the max-depth error when the max depth is not
  positive, and the max-tries error when it is.
\<close>

theorem Grammar_Gen_no_base_case:
  assumes "no_base_case g" and "Productions g \<noteq> []"
  shows "fst (Grammar_Gen pcg now g opts) =
           (case resolve (Productions g) Map.empty of
              Inl e \<Rightarrow> Inl e
            | Inr accepted \<Rightarrow>
                Inl (if MaxDepth (generatorOptions now opts) \<le> 0 then ErrReachedMaxDepth
                     else ErrReachedMaxGenerationTries))"
proof (cases "resolve (Productions g) Map.empty")
  case (Inl e)
  then show ?thesis by (simp add: Grammar_Gen_def)
next
  case (Inr accepted)
  obtain ps rs where "accepted = (ps, rs)" by (cases accepted)
  then show ?thesis using Grammar_Gen_accepted_without_base_case [OF assms] Inr by simp
qed


theorem Grammar_Gen_no_base_case_witness:
  "no_base_case grammar_self_recursive \<and> Productions grammar_self_recursive \<noteq> [] \<and>
   fst (Grammar_Gen draws_zero 0 grammar_self_recursive []) = Inl ErrReachedMaxGenerationTries \<and>
   fst (Grammar_Gen draws_zero 0 grammar_self_recursive [WithMaxDepth 0]) = Inl ErrReachedMaxDepth"
proof -
  have nb: "no_base_case grammar_self_recursive"
    by (simp add: no_base_case_def recursive_only_def grammar_self_recursive_def)
  have ne: "Productions grammar_self_recursive \<noteq> []"
    by (simp add: grammar_self_recursive_def)
  have ok: "\<exists>accepted. resolve (Productions grammar_self_recursive) Map.empty = Inr accepted"
    by (simp add: grammar_self_recursive_def SortFunc_def Let_def)
  have d1: "MaxDepth (generatorOptions 0 []) = 10"
    and d2: "MaxDepth (generatorOptions 0 [WithMaxDepth 0]) = 0"
    by (simp_all add: generatorOptions_def defaultGeneratorStateOptions_def)
  show ?thesis
    using Grammar_Gen_no_base_case [OF nb ne, of draws_zero 0 "[]"]
      Grammar_Gen_no_base_case [OF nb ne, of draws_zero 0 "[WithMaxDepth 0]"] nb ne ok d1 d2
    by auto
qed

text \<open>
  C4, as the claim states it: with max depth 1 and one try, the grammar \<open>S ::= S %1 .\<close>
  makes generation return the max-tries error, not the max-depth error.
\<close>

theorem self_recursive_returns_max_tries:
  "fst (Grammar_Gen draws_zero 0 grammar_self_recursive [WithMaxDepth 1, WithMaxGenerationTries 1])
     = Inl ErrReachedMaxGenerationTries \<and>
   fst (Grammar_Gen draws_zero 0 grammar_self_recursive [WithMaxDepth 1, WithMaxGenerationTries 1])
     \<noteq> Inl ErrReachedMaxDepth"
  by code_simp


subsection \<open>What a production retries\<close>

lemma Production_Gen_loop_own_result:
  "own_result (fst (Production_Gen_loop state p pr depth try n))"
proof (induction state p pr depth "try" n
    rule: Alternate_Gen_Production_Gen_Production_Gen_loop.induct(3)
      [where P = "\<lambda>_ _ _ _. True" and Q = "\<lambda>_ _ _ _. True"])
  case (10 state p pr depth "try" n)
  show ?case
  proof (cases "try < MaxGenerationTries (options state)")
    case False
    then show ?thesis
      by (subst Production_Gen_loop.simps) (simp add: own_result_def)
  next
    case True
    define aNo where "aNo = select_aNo (totals pr) (Production_Gen_sample state pr n) (Alternatives p)"
    show ?thesis
    proof (cases "aNo < 0")
      case neg: True
      then show ?thesis using True
        by (subst Production_Gen_loop.simps) (simp add: own_result_def aNo_def Let_def)
    next
      case False
      obtain r n1 where att:
        "Alternate_Gen state (Alternate (Alternatives p ! nat aNo)) (depth - 1) (Suc n) = (r, n1)"
        by (cases "Alternate_Gen state (Alternate (Alternatives p ! nat aNo)) (depth - 1) (Suc n)")
      show ?thesis
      proof (cases r)
        case (Inr node)
        then show ?thesis using True False att
          by (subst Production_Gen_loop.simps) (simp add: own_result_def aNo_def [symmetric] Let_def)
      next
        case (Inl e)
        show ?thesis
        proof (cases "is_panic e \<or> is_ErrRuleDoesNotExist e")
          case stop: True
          then show ?thesis using True False att Inl
            by (subst Production_Gen_loop.simps)
               (auto simp add: own_result_def aNo_def [symmetric] Let_def)
        next
          case go: False
          have "own_result (fst (Production_Gen_loop state p pr depth (try + 1) n1))"
            using "10.IH" [OF True refl refl, of r n1 e] False att Inl go
            by (simp add: aNo_def)
          then show ?thesis using True False att Inl go
            by (subst Production_Gen_loop.simps) (simp add: aNo_def [symmetric] Let_def)
        qed
      qed
    qed
  qed
qed simp_all


text \<open>
  C5. A production's \<open>Gen\<close> at a positive depth returns a node or fails of its own: with
  the max-tries error of its own budget, with the error of an undefined rule, or by a panic.
  When the alternative it tried failed with the max-tries or the max-depth error of an
  inner rule, and tries remain, it goes on to its next try: it does not hand that error to
  its caller.
\<close>

theorem Production_Gen_retries_inner_failures:
  fixes state :: GeneratorState and p :: Production and pr :: production
  defines "alt \<equiv> \<lambda>n. Alternate (Alternatives p !
      nat (select_aNo (totals pr) (seed state n * prod_max pr) (Alternatives p)))"
  assumes "0 < depth"
  shows "own_result (fst (Production_Gen state p depth m)) \<and>
         (try < MaxGenerationTries (options state) \<and> Alternatives p \<noteq> [] \<and>
          Alternate_Gen state (alt n) (depth - 1) (Suc n) = (Inl e, n1) \<and>
          (e = ErrReachedMaxGenerationTries \<or> e = ErrReachedMaxDepth) \<longrightarrow>
            Production_Gen_loop state p pr depth try n =
            Production_Gen_loop state p pr depth (try + 1) n1)"
proof
  show "own_result (fst (Production_Gen state p depth m))"
    using assms(2) Production_Gen_loop_own_result
    by (auto simp add: own_result_def split: option.splits)
next
  show "try < MaxGenerationTries (options state) \<and> Alternatives p \<noteq> [] \<and>
          Alternate_Gen state (alt n) (depth - 1) (Suc n) = (Inl e, n1) \<and>
          (e = ErrReachedMaxGenerationTries \<or> e = ErrReachedMaxDepth) \<longrightarrow>
            Production_Gen_loop state p pr depth try n =
            Production_Gen_loop state p pr depth (try + 1) n1"
  proof
    assume a: "try < MaxGenerationTries (options state) \<and> Alternatives p \<noteq> [] \<and>
          Alternate_Gen state (alt n) (depth - 1) (Suc n) = (Inl e, n1) \<and>
          (e = ErrReachedMaxGenerationTries \<or> e = ErrReachedMaxDepth)"
    then have "0 \<le> select_aNo (totals pr) (seed state n * prod_max pr) (Alternatives p)"
      using select_aNo_range by blast
    with a show "Production_Gen_loop state p pr depth try n =
            Production_Gen_loop state p pr depth (try + 1) n1"
      by (subst Production_Gen_loop.simps) (auto simp add: alt_def Let_def Production_Gen_sample_def)
  qed
qed

theorem Production_Gen_retries_inner_failures_witness:
  "(0::int) < 2 \<and>
   Alternate_Gen state_inner_rule (Rule example_pos ''A'') 1 1 = (Inl ErrReachedMaxGenerationTries, 3) \<and>
   Production_Gen_loop state_inner_rule production_S entry_S 2 0 0 =
     Production_Gen_loop state_inner_rule production_S entry_S 2 1 3 \<and>
   own_result (fst (Production_Gen state_inner_rule production_S 2 0)) \<and>
   fst (Production_Gen state_inner_rule production_S 2 0) = Inr (component example_pos ''x'')"
proof -
  have inner: "Alternate_Gen state_inner_rule (Rule example_pos ''A'') 1 1 =
      (Inl ErrReachedMaxGenerationTries, 3)"
    by code_simp
  have alt: "Alternate (Alternatives production_S !
      nat (select_aNo (totals entry_S) (seed state_inner_rule 0 * prod_max entry_S)
             (Alternatives production_S))) = Rule example_pos ''A''"
    by code_simp
  have budget: "(0::int) < MaxGenerationTries (options state_inner_rule)"
    and ne: "Alternatives production_S \<noteq> []"
    by (simp_all add: state_inner_rule_def production_S_def)
  have res: "fst (Production_Gen state_inner_rule production_S 2 0) = Inr (component example_pos ''x'')"
    by code_simp
  note t = Production_Gen_retries_inner_failures [of 2 state_inner_rule production_S 0 0
      entry_S 0 ErrReachedMaxGenerationTries 3]
  show ?thesis using t inner alt budget ne res by simp
qed

text \<open>
  C5, as the claim states it: with max depth 2 and two tries, the inner rule \<open>A\<close> of
  \<open>S ::= A %1 .  A ::= A %0.5 | x %0.5 .\<close> fails both of its tries (the draws choose its
  recursive alternative twice) and returns the max-tries error; the enclosing rule \<open>S\<close>
  tries again, and generation succeeds.
\<close>

theorem inner_max_tries_is_retried:
  "(case snd (Grammar_Gen draws_inner_rule 0 grammar_inner_rule [WithMaxDepth 2, WithMaxGenerationTries 2]) of
      None \<Rightarrow> False
    | Some s \<Rightarrow>
        (case rules s ''A'' of
           None \<Rightarrow> False
         | Some a \<Rightarrow> Production_Gen s (Production a) 1 1 = (Inl ErrReachedMaxGenerationTries, 3))) \<and>
   fst (Grammar_Gen draws_inner_rule 0 grammar_inner_rule [WithMaxDepth 2, WithMaxGenerationTries 2])
     = Inr (component example_pos ''x'')"
  by code_simp


section \<open>Properties of rendering\<close>

subsection \<open>The render options\<close>

lemma apply_opts_decodes:
  "list_all decodes opts \<Longrightarrow>
     \<exists>r1. apply_opts opts r = (r1, None) \<and>
          (width r1, height r1) = requested_resolution opts (width r, height r) \<and>
          src r1 = supplied_source opts (src r)"
proof (induction opts arbitrary: r)
  case Nil
  then show ?case by simp
next
  case (Cons opt opts)
  show ?case
  proof (cases opt)
    case (WithResolution w h)
    then show ?thesis using Cons.IH [of "r\<lparr>width := w, height := h\<rparr>"] Cons.prems by simp
  next
    case (WithFrames k)
    then show ?thesis using Cons.IH [of "r\<lparr>frames := k\<rparr>"] Cons.prems by simp
  next
    case (WithSourceImage d)
    then obtain m where d: "d = Inr m" using Cons.prems by (cases d) auto
    then show ?thesis using WithSourceImage Cons.IH [of "r\<lparr>src := m\<rparr>"] Cons.prems by simp
  next
    case WithLogger
    then show ?thesis using Cons.IH [of r] Cons.prems by simp
  qed
qed

lemma supplied_source_none:
  "list_all (\<lambda>opt. \<forall>d. opt \<noteq> WithSourceImage d) opts \<Longrightarrow> supplied_source opts m = m"
  by (induction opts m rule: supplied_source.induct) auto

lemma fst_validate: "fst (validate r) = r"
  by (simp add: validate_def)

text \<open>
  C10. When every option succeeds, \<open>apply\<close> replaces the width and height by the bounds
  (\<open>Dx\<close>, \<open>Dy\<close>) of the supplied source image if that is not a uniform image, whatever
  resolution was requested; with a uniform source the requested width and height stand.
  Without a \<open>WithSourceImage\<close> option the source is the one the options started with (the
  uniform white image of the defaults).
\<close>

theorem renderOptions_apply_source_bounds:
  assumes "list_all decodes opts"
  shows "(case supplied_source opts (src r) of
            Decoded b f \<Rightarrow>
              width (fst (renderOptions_apply r opts)) = Dx b \<and>
              height (fst (renderOptions_apply r opts)) = Dy b
          | Uniform c \<Rightarrow>
              (width (fst (renderOptions_apply r opts)), height (fst (renderOptions_apply r opts))) =
                requested_resolution opts (width r, height r)
          | NilImage \<Rightarrow> snd (renderOptions_apply r opts) = Some PanicNilImage) \<and>
         (list_all (\<lambda>opt. \<forall>d. opt \<noteq> WithSourceImage d) opts \<longrightarrow>
            supplied_source opts (src r) = src r)"
proof -
  from apply_opts_decodes [OF assms, of r] obtain r1 where r1: "apply_opts opts r = (r1, None)"
    "(width r1, height r1) = requested_resolution opts (width r, height r)"
    "src r1 = supplied_source opts (src r)"
    by blast
  show ?thesis
    using r1 supplied_source_none [of opts "src r"]
    by (cases "supplied_source opts (src r)")
       (auto simp add: renderOptions_apply_def fst_validate)
qed

theorem renderOptions_apply_source_bounds_witness:
  "list_all decodes [WithResolution 800 600, WithSourceImage (Inr example_source)] \<and>
   list_all decodes [WithResolution 800 600] \<and>
   width (fst (renderOptions_apply defaultRenderOptions
      [WithResolution 800 600, WithSourceImage (Inr example_source)])) = 3 \<and>
   height (fst (renderOptions_apply defaultRenderOptions
      [WithResolution 800 600, WithSourceImage (Inr example_source)])) = 2 \<and>
   width (fst (renderOptions_apply defaultRenderOptions [WithResolution 800 600])) = 800 \<and>
   height (fst (renderOptions_apply defaultRenderOptions [WithResolution 800 600])) = 600"
proof -
  have d1: "list_all decodes [WithResolution 800 600, WithSourceImage (Inr example_source)]"
    and d2: "list_all decodes [WithResolution 800 600]"
    by simp_all
  show ?thesis
    using renderOptions_apply_source_bounds [OF d1, of defaultRenderOptions]
      renderOptions_apply_source_bounds [OF d2, of defaultRenderOptions]
    by (simp add: example_source_def defaultRenderOptions_def Dx_def Dy_def image_Rect_def)
qed

section \<open>The selection of an alternative\<close>

text \<open>
  The bisection returns the first index whose entry is not below the target, and the
  length of the table when there is none.
\<close>

lemma BinarySearch_loop_spec:
  "sorted x \<Longrightarrow> i \<le> j \<Longrightarrow> j \<le> length x \<Longrightarrow> (\<forall>k<i. x ! k < target) \<Longrightarrow>
   (\<forall>k. j \<le> k \<and> k < length x \<longrightarrow> target \<le> x ! k) \<Longrightarrow>
     BinarySearch_loop x target i j \<le> length x \<and>
     (\<forall>k<BinarySearch_loop x target i j. x ! k < target) \<and>
     (\<forall>k. BinarySearch_loop x target i j \<le> k \<and> k < length x \<longrightarrow> target \<le> x ! k)"
proof (induction x target i j rule: BinarySearch_loop.induct)
  case (1 x target i j)
  show ?case
  proof (cases "i < j")
    case False
    then have "BinarySearch_loop x target i j = i"
      by (subst BinarySearch_loop.simps) simp
    moreover have "i = j" using False "1.prems"(2) by simp
    ultimately show ?thesis using "1.prems" by auto
  next
    case True
    define h where "h = (i + j) div 2"
    have h: "i \<le> h" "h < j" using True by (simp_all add: h_def)
    show ?thesis
    proof (cases "x ! h < target")
      case lt: True
      have eq: "BinarySearch_loop x target i j = BinarySearch_loop x target (h + 1) j"
        using True lt by (subst BinarySearch_loop.simps) (simp add: h_def Let_def)
      have below: "\<forall>k<h + 1. x ! k < target"
      proof (intro allI impI)
        fix k assume "k < h + 1"
        then have "x ! k \<le> x ! h"
          using "1.prems"(1,3) h by (auto intro: sorted_nth_mono)
        then show "x ! k < target" using lt by simp
      qed
      show ?thesis
        unfolding eq
        using "1.IH"(1) [OF True h_def lt "1.prems"(1) _ "1.prems"(3) below "1.prems"(5)] h
        by simp
    next
      case ge: False
      have eq: "BinarySearch_loop x target i j = BinarySearch_loop x target i h"
        using True ge by (subst BinarySearch_loop.simps) (simp add: h_def Let_def)
      have above: "\<forall>k. h \<le> k \<and> k < length x \<longrightarrow> target \<le> x ! k"
      proof (intro allI impI)
        fix k assume "h \<le> k \<and> k < length x"
        then have "x ! h \<le> x ! k"
          using "1.prems"(1) by (auto intro: sorted_nth_mono)
        then show "target \<le> x ! k" using ge by simp
      qed
      show ?thesis
        unfolding eq
        using "1.IH"(2) [OF True h_def ge "1.prems"(1) h(1) _ "1.prems"(4) above] h "1.prems"(3)
        by simp
    qed
  qed
qed

lemma BinarySearch_spec:
  assumes "sorted x"
  shows "BinarySearch x target \<le> length x"
    and "\<forall>k<BinarySearch x target. x ! k < target"
    and "\<forall>k. BinarySearch x target \<le> k \<and> k < length x \<longrightarrow> target \<le> x ! k"
  using BinarySearch_loop_spec [OF assms, of 0 "length x" target]
  by (simp_all add: BinarySearch_def)

text \<open>
  The cumulative table of non-negative probabilities is ascending, as long as the
  alternatives, and ends in the total mass.
\<close>

lemma totals_loop_spec:
  "totals_loop alts mx tots = Inr (mx', tots') \<Longrightarrow> list_all (\<lambda>a. 0 \<le> Probability a) alts \<Longrightarrow>
   sorted tots \<Longrightarrow> (\<forall>t\<in>set tots. t \<le> mx) \<Longrightarrow>
     length tots' = length tots + length alts \<and> sorted tots' \<and> (\<forall>t\<in>set tots'. t \<le> mx') \<and>
     mx \<le> mx' \<and> (alts \<noteq> [] \<longrightarrow> last tots' = mx')"
proof (induction alts arbitrary: mx tots)
  case Nil
  then show ?case by auto
next
  case (Cons a as)
  define m1 where "m1 = mx + Probability a"
  from Cons.prems(1) have rest: "totals_loop as m1 (tots @ [m1]) = Inr (mx', tots')"
    by (auto simp add: m1_def Let_def split: if_splits)
  have a: "0 \<le> Probability a" and as: "list_all (\<lambda>a. 0 \<le> Probability a) as"
    using Cons.prems(2) by simp_all
  have s1: "sorted (tots @ [m1])"
    using Cons.prems(3,4) a by (auto simp add: sorted_append m1_def intro: order_trans)
  have b1: "\<forall>t\<in>set (tots @ [m1]). t \<le> m1"
    using Cons.prems(4) a by (auto simp add: m1_def intro: order_trans)
  note ih = Cons.IH [OF rest as s1 b1]
  have "last tots' = mx'"
  proof (cases as)
    case Nil
    then show ?thesis using rest by auto
  next
    case (Cons b bs)
    then show ?thesis using ih by simp
  qed
  then show ?case using ih a by (simp add: m1_def)
qed

text \<open>
  The first index with an entry greater than or equal to \<open>x\<close> has only smaller entries
  before it, and on a sorted table the bisection returns it.
\<close>

lemma first_index_at_least_spec:
  "first_index_at_least ts x \<le> length ts \<and>
   (\<forall>i<first_index_at_least ts x. ts ! i < x) \<and>
   (first_index_at_least ts x < length ts \<longrightarrow> x \<le> ts ! first_index_at_least ts x)"
proof (induction ts)
  case Nil
  then show ?case by simp
next
  case (Cons t ts)
  show ?case
  proof (cases "x \<le> t")
    case True
    then show ?thesis by simp
  next
    case False
    then have "\<forall>i<Suc (first_index_at_least ts x). (t # ts) ! i < x"
      using Cons by (auto simp add: nth_Cons')
    then show ?thesis using False Cons by simp
  qed
qed

lemma BinarySearch_first_index:
  assumes "sorted ts"
  shows "BinarySearch ts x = first_index_at_least ts x"
proof -
  define r where "r = BinarySearch ts x"
  define f where "f = first_index_at_least ts x"
  note bs = BinarySearch_spec [OF assms, of x, folded r_def]
  note fs = first_index_at_least_spec [of ts x, folded f_def]
  have "\<not> r < f"
  proof
    assume a: "r < f"
    then have "ts ! r < x" using fs by blast
    moreover have "r < length ts" using a fs by simp
    then have "x \<le> ts ! r" using bs(3) by blast
    ultimately show False by simp
  qed
  moreover have "\<not> f < r"
  proof
    assume a: "f < r"
    then have "ts ! f < x" using bs(2) by blast
    moreover have "f < length ts" using a bs(1) by simp
    then have "x \<le> ts ! f" using fs by blast
    ultimately show False by simp
  qed
  ultimately show ?thesis by (simp add: r_def f_def)
qed

text \<open>
  C8. For a production with alternatives of non-negative probabilities, whose entry of the
  rule table holds the total mass and the cumulative table that the resolution computes,
  and a try within the budget, where \<open>n\<close> values have been drawn before. The sample \<open>x\<close> of
  the try is the next value of the source times the total mass; when that value is a
  draw, in \<open>[0, 1)\<close>, the sample is in \<open>[0, mass)\<close> if the mass is positive, and is \<open>0\<close> if
  the mass is \<open>0\<close>. The try expands the alternative at the index \<open>j\<close>, returns its node,
  its panic or its undefined-rule error, and goes to the next try on any other error.
  The index \<open>j\<close> is a valid index of the alternatives, and every entry of the cumulative
  table before it is below \<open>x\<close>; when \<open>x\<close> is at most the mass, \<open>j\<close> is the first index
  whose entry is greater than or equal to \<open>x\<close>; when \<open>x\<close> is above the mass, it lies beyond
  every entry and \<open>j\<close> is the last index.
\<close>

theorem alternative_selection:
  fixes state :: GeneratorState and p :: Production and pr :: production and n :: nat
  defines "x \<equiv> Production_Gen_sample state pr n"
  defines "k \<equiv> first_index_at_least (totals pr) (Production_Gen_sample state pr n)"
  defines "j \<equiv> min (first_index_at_least (totals pr) (Production_Gen_sample state pr n))
                    (length (Alternatives p) - 1)"
  assumes "totals_loop (Alternatives p) 0 [] = Inr (prod_max pr, totals pr)"
    and "list_all (\<lambda>a. 0 \<le> Probability a) (Alternatives p)"
    and "Alternatives p \<noteq> []"
    and "try < MaxGenerationTries (options state)"
  shows "x = seed state n * prod_max pr \<and>
         (0 \<le> seed state n \<and> seed state n < 1 \<longrightarrow>
            0 \<le> x \<and> (0 < prod_max pr \<longrightarrow> x < prod_max pr) \<and> (prod_max pr = 0 \<longrightarrow> x = 0)) \<and>
         Production_Gen_loop state p pr depth try n =
           (case Alternate_Gen state (Alternate (Alternatives p ! j)) (depth - 1) (Suc n) of
              (Inr node, n1) \<Rightarrow> (Inr node, n1)
            | (Inl e, n1) \<Rightarrow>
                if is_panic e \<or> is_ErrRuleDoesNotExist e then (Inl e, n1)
                else Production_Gen_loop state p pr depth (try + 1) n1) \<and>
         j < length (Alternatives p) \<and>
         (\<forall>i<j. totals pr ! i < x) \<and>
         (x \<le> prod_max pr \<longrightarrow> j = k \<and> x \<le> totals pr ! j) \<and>
         (prod_max pr < x \<longrightarrow>
            (\<forall>i<length (Alternatives p). totals pr ! i < x) \<and> j = length (Alternatives p) - 1)"
proof -
  from totals_loop_spec [OF assms(4,5)] assms(6)
  have len: "length (totals pr) = length (Alternatives p)" and srt: "sorted (totals pr)"
    and bound: "\<forall>t\<in>set (totals pr). t \<le> prod_max pr"
    and nonneg: "0 \<le> prod_max pr" and lst: "last (totals pr) = prod_max pr"
    by simp_all
  have pos: "0 < length (totals pr)" using len assms(6) by simp
  have lastn: "totals pr ! (length (totals pr) - 1) = prod_max pr"
    using lst pos by (simp add: last_conv_nth)
  have xdef: "x = seed state n * prod_max pr" by (simp add: x_def Production_Gen_sample_def)
  have sample: "0 \<le> x \<and> (0 < prod_max pr \<longrightarrow> x < prod_max pr) \<and> (prod_max pr = 0 \<longrightarrow> x = 0)"
    if "0 \<le> seed state n \<and> seed state n < 1"
    unfolding xdef using that nonneg by (auto simp add: mult_less_cancel_right2)
  have kdef: "k = first_index_at_least (totals pr) x" by (simp add: k_def x_def)
  have jdef: "j = min k (length (Alternatives p) - 1)" by (simp add: j_def k_def)
  note fs = first_index_at_least_spec [of "totals pr" x, folded kdef]
  have "j \<le> length (Alternatives p) - 1" by (simp add: jdef)
  then have jlt: "j < length (Alternatives p)" using pos len by linarith
  have jle: "j \<le> k" by (simp add: jdef)
  have before: "\<forall>i<j. totals pr ! i < x" using fs jle by simp
  have first: "j = k \<and> x \<le> totals pr ! j" if "x \<le> prod_max pr"
  proof -
    have klt: "k < length (totals pr)"
    proof (rule ccontr)
      assume "\<not> k < length (totals pr)"
      then have "length (totals pr) - 1 < k" using pos by linarith
      then have "totals pr ! (length (totals pr) - 1) < x" using fs by blast
      then show False using that lastn by simp
    qed
    then have "j = k" using len by (simp add: jdef)
    moreover have "x \<le> totals pr ! k" using klt fs by blast
    ultimately show ?thesis by simp
  qed
  have clamp: "(\<forall>i<length (Alternatives p). totals pr ! i < x) \<and> j = length (Alternatives p) - 1"
    if "prod_max pr < x"
  proof -
    have all: "\<forall>i<length (totals pr). totals pr ! i < x"
      using bound that by (auto intro: le_less_trans)
    have "\<not> k < length (totals pr)"
    proof
      assume "k < length (totals pr)"
      then have "x \<le> totals pr ! k" "totals pr ! k < x" using fs all by blast+
      then show False by simp
    qed
    then have "j = length (Alternatives p) - 1" using len by (simp add: jdef)
    then show ?thesis using all len by simp
  qed
  have sel: "0 \<le> select_aNo (totals pr) x (Alternatives p) \<and>
      nat (select_aNo (totals pr) x (Alternatives p)) = j"
    using assms(6) BinarySearch_first_index [OF srt, of x]
    by (cases "Alternatives p") (auto simp add: select_aNo_def min_def jdef kdef)
  then have nn: "\<not> select_aNo (totals pr) x (Alternatives p) < 0" by simp
  have loop: "Production_Gen_loop state p pr depth try n =
           (case Alternate_Gen state (Alternate (Alternatives p ! j)) (depth - 1) (Suc n) of
              (Inr node, n1) \<Rightarrow> (Inr node, n1)
            | (Inl e, n1) \<Rightarrow>
                if is_panic e \<or> is_ErrRuleDoesNotExist e then (Inl e, n1)
                else Production_Gen_loop state p pr depth (try + 1) n1)"
    using assms(7) nn sel
    by (subst Production_Gen_loop.simps)
       (auto simp add: Let_def x_def [symmetric] split: prod.splits sum.splits)
  show ?thesis using xdef sample loop jlt before first clamp by blast
qed

theorem alternative_selection_witness:
  "totals_loop (Alternatives production_quarters) 0 [] =
     Inr (prod_max entry_quarters, totals entry_quarters) \<and>
   prod_max entry_quarters = 1 / 2 \<and> totals entry_quarters = [1 / 4, 1 / 2] \<and>
   seed state_quarters 0 = 2 / 5 \<and>
   Production_Gen_sample state_quarters entry_quarters 0 = 1 / 5 \<and>
   Production_Gen_loop state_quarters production_quarters entry_quarters 2 0 0 =
     (Inr (component example_pos ''x''), 1) \<and>
   Production_Gen_sample state_beyond entry_quarters 0 = 2 \<and>
   Production_Gen_loop state_beyond production_quarters entry_quarters 2 0 0 =
     (Inr (component example_pos ''y''), 1)"
proof -
  have t: "totals_loop (Alternatives production_quarters) 0 [] =
      Inr (prod_max entry_quarters, totals entry_quarters)"
    by (simp add: production_quarters_def entry_quarters_def Let_def)
  have e: "prod_max entry_quarters = 1 / 2" "totals entry_quarters = [1 / 4, 1 / 2]"
    by (simp_all add: entry_quarters_def)
  have p: "list_all (\<lambda>a. 0 \<le> Probability a) (Alternatives production_quarters)"
    and ne: "Alternatives production_quarters \<noteq> []"
    and len: "length (Alternatives production_quarters) = 2"
    by (simp_all add: production_quarters_def)
  have u: "seed state_quarters 0 = 2 / 5"
    and b: "(0::int) < MaxGenerationTries (options state_quarters)"
    by (simp_all add: state_quarters_def)
  have u': "seed state_beyond 0 = 4"
    and b': "(0::int) < MaxGenerationTries (options state_beyond)"
    by (simp_all add: state_beyond_def state_quarters_def)
  note th = alternative_selection [OF t p ne b, of 0 2]
  note th' = alternative_selection [OF t p ne b', of 0 2]
  have x: "Production_Gen_sample state_quarters entry_quarters 0 = 1 / 5"
    using th u e by simp
  have x': "Production_Gen_sample state_beyond entry_quarters 0 = 2"
    using th' u' e by simp
  have k: "min (first_index_at_least (totals entry_quarters) (1 / 5))
      (length (Alternatives production_quarters) - 1) = 0"
    by (simp add: e)
  have k': "min (first_index_at_least (totals entry_quarters) 2)
      (length (Alternatives production_quarters) - 1) = 1"
    by (simp add: e len)
  have alt: "Alternate_Gen state_quarters (Alternate (Alternatives production_quarters ! 0)) (2 - 1) (Suc 0) =
      (Inr (component example_pos ''x''), 1)"
    by (simp add: production_quarters_def)
  have alt': "Alternate_Gen state_beyond (Alternate (Alternatives production_quarters ! 1)) (2 - 1) (Suc 0) =
      (Inr (component example_pos ''y''), 1)"
    by (simp add: production_quarters_def)
  have loop: "Production_Gen_loop state_quarters production_quarters entry_quarters 2 0 0 =
      (Inr (component example_pos ''x''), 1)"
    using th x k alt by simp
  have loop': "Production_Gen_loop state_beyond production_quarters entry_quarters 2 0 0 =
      (Inr (component example_pos ''y''), 1)"
    using th' x' k' alt' by simp
  show ?thesis using t e u x loop x' loop' by simp
qed

text \<open>
  C8, as the claim states it: the grammar \<open>S ::= x %0 | y %0 .\<close> is accepted, the total
  mass of its production is \<open>0\<close>, and the sample of the first try is \<open>0\<close>, which is not in
  the empty interval \<open>[0, 0)\<close>; generation succeeds all the same, with the first
  alternative.
\<close>

theorem zero_mass_sample_outside_interval:
  "(case snd (Grammar_Gen draws_half 0 grammar_zero_mass [WithSeeds 42]) of
      None \<Rightarrow> False
    | Some s \<Rightarrow>
        (case rules s ''S'' of
           None \<Rightarrow> False
         | Some pr \<Rightarrow>
             prod_max pr = 0 \<and> Production_Gen_sample s pr 0 = 0 \<and>
             \<not> (0 \<le> Production_Gen_sample s pr 0 \<and> Production_Gen_sample s pr 0 < prod_max pr))) \<and>
   fst (Grammar_Gen draws_half 0 grammar_zero_mass [WithSeeds 42]) = Inr (component example_pos ''x'')"
  by code_simp

section \<open>The reassembly of the frames\<close>

text \<open>The buffer is sorted by frame index after every insertion.\<close>

lemma set_insertLeft: "set (insertLeft cmp x ys) = insert x (set ys)"
  using mset_insertLeft [of cmp x ys] by (metis mset_eq_setD set_mset_add_mset_insert set_mset_mset)

lemma insertLeft_cmpFrame_descending:
  "sorted (rev (map frame acc)) \<Longrightarrow> sorted (rev (map frame (insertLeft cmpFrame x acc)))"
proof (induction acc)
  case Nil
  then show ?case by simp
next
  case (Cons y ys)
  then show ?case
    by (auto simp add: sorted_append cmpFrame_def set_insertLeft)
qed

lemma foldl_insertLeft_cmpFrame_descending:
  "sorted (rev (map frame acc)) \<Longrightarrow>
     sorted (rev (map frame (foldl (\<lambda>sorted_rev x. insertLeft cmpFrame x sorted_rev) acc xs)))"
  by (induction xs arbitrary: acc) (simp_all add: insertLeft_cmpFrame_descending)

lemma sorted_SortFunc_cmpFrame: "sorted (map frame (SortFunc xs cmpFrame))"
  using foldl_insertLeft_cmpFrame_descending [of "[]" xs]
  by (simp add: SortFunc_def rev_map)

text \<open>
  The inner loop takes from the head of the buffer the results of the frames
  \<open>e, e + 1, ...\<close> and stops at the first head that is not the expected frame.
\<close>

lemma drain_spec:
  "drain e buf = (ys, e', buf') \<Longrightarrow>
     \<exists>taken. buf = taken @ buf' \<and> ys = map img taken \<and> map frame taken = [e..e' - 1] \<and> e \<le> e' \<and>
       (buf' \<noteq> [] \<longrightarrow> frame (hd buf') \<noteq> e')"
proof (induction buf arbitrary: e ys e' buf')
  case Nil
  then show ?case by simp
next
  case (Cons f buf)
  show ?case
  proof (cases "frame f = e")
    case False
    then show ?thesis using Cons.prems by auto
  next
    case True
    obtain ys1 e1 buf1 where d: "drain (e + 1) buf = (ys1, e1, buf1)"
      by (cases "drain (e + 1) buf") auto
    from Cons.IH [OF d] obtain taken where t: "buf = taken @ buf1" "ys1 = map img taken"
      "map frame taken = [e + 1..e1 - 1]" "e + 1 \<le> e1" "buf1 \<noteq> [] \<longrightarrow> frame (hd buf1) \<noteq> e1"
      by blast
    have res: "ys = img f # ys1" "e' = e1" "buf' = buf1"
      using Cons.prems True d by simp_all
    have "map frame (f # taken) = [e..e1 - 1]"
      using t(3,4) True by (simp add: upto_rec1 [of e "e1 - 1"])
    then show ?thesis using t res
      by (intro exI [of _ "f # taken"]) simp
  qed
qed

lemma upto_split_at:
  "e \<le> e' \<Longrightarrow> e' \<le> n \<Longrightarrow> [e..n - 1] = [e..e' - 1] @ [e'..n - 1]" for e :: int
proof (cases "e' = n")
  case True
  then show ?thesis by simp
next
  case False
  assume "e \<le> e'" "e' \<le> n"
  then show ?thesis using False upto_split1 [of e e' "n - 1"] by simp
qed

text \<open>
  The invariant of the loop: the buffer is sorted, holds only frames after the expected
  one, and together with the results still to arrive holds each frame from the expected
  one to the last exactly once.
\<close>

lemma frames_loop_in_order:
  "\<forall>r\<in>set rs \<union> set buf. err r = None \<and> r = g (frame r) \<Longrightarrow>
   mset (map frame (buf @ rs)) = mset [e..n - 1] \<Longrightarrow>
   sorted (map frame buf) \<Longrightarrow> \<forall>b\<in>set buf. e < frame b \<Longrightarrow>
     frames_loop n e buf (map Result rs) = (map (\<lambda>i. (img (g i), None)) [e..n - 1], Completed)"
proof (induction rs arbitrary: e buf)
  case Nil
  have "\<not> e < n"
  proof
    assume "e < n"
    then have "e \<in> set [e..n - 1]" by simp
    then have "e \<in> set (map frame buf)"
      using Nil.prems(2) by (metis append_Nil2 mset_eq_setD)
    then show False using Nil.prems(4) by auto
  qed
  then show ?case by simp
next
  case (Cons r rs)
  have sets: "set (map frame (buf @ r # rs)) = set [e..n - 1]"
    using Cons.prems(2) by (rule mset_eq_setD)
  have dist: "distinct (map frame (buf @ r # rs))"
    using Cons.prems(2) by (metis distinct_upto mset_eq_imp_distinct_iff)
  have "frame r \<in> set [e..n - 1]" using sets by auto
  then have rng: "e \<le> frame r" "frame r < n" by simp_all
  then have lt: "e < n" by simp
  have ok: "err r = None" and rg: "r = g (frame r)" using Cons.prems(1) by simp_all
  show ?case
  proof (cases "frame r = e")
    case False
    define buf1 where "buf1 = SortFunc (buf @ [r]) cmpFrame"
    have m1: "mset buf1 = mset (buf @ [r])" by (simp add: buf1_def mset_SortFunc)
    then have s1: "set buf1 = set (buf @ [r])" by (rule mset_eq_setD)
    have p1: "\<forall>x\<in>set rs \<union> set buf1. err x = None \<and> x = g (frame x)"
      using Cons.prems(1) s1 by auto
    have "mset (map frame buf1) = mset (map frame (buf @ [r]))"
      using m1 by (metis mset_map)
    then have p2: "mset (map frame (buf1 @ rs)) = mset [e..n - 1]"
      using Cons.prems(2) by simp
    have p3: "sorted (map frame buf1)" by (simp add: buf1_def sorted_SortFunc_cmpFrame)
    have p4: "\<forall>b\<in>set buf1. e < frame b"
      using Cons.prems(4) s1 False rng by auto
    show ?thesis
      using Cons.IH [OF p1 p2 p3 p4] False lt ok by (simp add: buf1_def)
  next
    case True
    obtain ys e' buf' where d: "drain (e + 1) buf = (ys, e', buf')"
      by (cases "drain (e + 1) buf") auto
    from drain_spec [OF d] obtain taken where t: "buf = taken @ buf'" "ys = map img taken"
      "map frame taken = [e + 1..e' - 1]" "e + 1 \<le> e'" "buf' \<noteq> [] \<longrightarrow> frame (hd buf') \<noteq> e'"
      by blast
    have e'n: "e' \<le> n"
    proof (cases "taken = []")
      case True
      then have "[e + 1..e' - 1] = []" using t(3) by simp
      then have "e' - 1 < e + 1" by (simp add: upto_Nil)
      then show ?thesis using t(4) lt by simp
    next
      case False
      then have "[e + 1..e' - 1] \<noteq> []" using t(3) by (metis map_is_Nil_conv)
      then have "e + 1 \<le> e' - 1" by (simp add: upto_Nil)
      then have "e' - 1 \<in> set (map frame taken)" using t(3) by simp
      then have "e' - 1 \<in> set (map frame (buf @ r # rs))" using t(1) by auto
      then have "e' - 1 \<in> set [e..n - 1]" unfolding sets .
      then show ?thesis by simp
    qed
    have split: "[e..n - 1] = e # [e + 1..e' - 1] @ [e'..n - 1]"
      using upto_split_at [of "e + 1" e' n] t(4) e'n lt by (simp add: upto_rec1 [of e "n - 1"])
    have a1: "mset (map frame (buf @ r # rs)) =
        add_mset e (mset [e + 1..e' - 1]) + mset (map frame (buf' @ rs))"
      using t(1,3) True by simp
    have a2: "mset [e..n - 1] = add_mset e (mset [e + 1..e' - 1]) + mset [e'..n - 1]"
      by (subst split) simp
    have "add_mset e (mset [e + 1..e' - 1]) + mset (map frame (buf' @ rs)) =
        add_mset e (mset [e + 1..e' - 1]) + mset [e'..n - 1]"
      using Cons.prems(2) a1 a2 by simp
    then have p2: "mset (map frame (buf' @ rs)) = mset [e'..n - 1]"
      by (simp only: add_left_cancel)
    have p1: "\<forall>x\<in>set rs \<union> set buf'. err x = None \<and> x = g (frame x)"
      using Cons.prems(1) t(1) by auto
    have p3: "sorted (map frame buf')"
      using Cons.prems(3) t(1) by (simp add: sorted_append)
    have d2: "distinct (map frame taken @ map frame buf' @ frame r # map frame rs)"
      using dist t(1) by simp
    have d3: "frame r \<notin> set (map frame buf')"
      and d4: "set (map frame taken) \<inter> set (map frame buf') = {}"
      using d2 by (simp_all add: Int_Un_distrib)
    have low: "e' \<le> frame b" if "b \<in> set buf'" for b
    proof -
      have mem: "frame b \<in> set (map frame buf')" using that by simp
      then have "frame b \<in> set (map frame (buf @ r # rs))" using t(1) by simp
      then have "frame b \<in> set [e..n - 1]" unfolding sets .
      moreover have "frame b \<noteq> e" using d3 mem True by metis
      moreover have "frame b \<notin> set (map frame taken)" using d4 mem by blast
      then have "frame b \<notin> set [e + 1..e' - 1]" unfolding t(3) .
      ultimately show ?thesis by simp
    qed
    have p4: "\<forall>b\<in>set buf'. e' < frame b"
    proof
      fix b assume b: "b \<in> set buf'"
      then have ne: "buf' \<noteq> []" by auto
      then have "frame (hd buf') \<noteq> e'" using t(5) by simp
      moreover have "e' \<le> frame (hd buf')" using low ne by simp
      moreover have "frame (hd buf') \<le> frame b"
        using p3 b ne by (cases buf') auto
      ultimately show "e' < frame b" by simp
    qed
    have taken_g: "map img taken = map (\<lambda>i. img (g i)) (map frame taken)"
      using Cons.prems(1) t(1) by (auto simp add: comp_def)
    have out: "map (\<lambda>i. (i, None :: frames_error option)) ys =
        map (\<lambda>i. (img (g i), None)) [e + 1..e' - 1]"
      using taken_g t(2,3) by (simp add: comp_def)
    have first: "(img r, None :: frames_error option) = (img (g e), None)"
      using rg True by simp
    show ?thesis
      using Cons.IH [OF p1 p2 p3 p4] True lt ok d out first
      by (simp add: split)
  qed
qed

lemma frame_process: "frame (process oor rt opts fr) = fr"
  by (simp add: process_def split: sum.splits)

text \<open>
  C1. When the results of the frame jobs arrive in any order that is a permutation of the
  frame indices \<open>0, ..., N - 1\<close> (and no job fails), the loop completes, and what it has
  yielded is the image of frame \<open>0\<close>, of frame \<open>1\<close>, ..., of frame \<open>N - 1\<close>, in this order.
\<close>

theorem frames_emitted_in_order:
  assumes "mset perm = mset [0..frames opts - 1]"
    and "\<forall>fr\<in>set perm. err (process oor rt opts fr) = None"
  shows "frames_seq oor rt opts (map JobDone perm) =
           (map (\<lambda>fr. (img (process oor rt opts fr), None)) [0..frames opts - 1], Completed)"
proof -
  define rs where "rs = map (process oor rt opts) perm"
  have ev: "map (event_of oor rt opts) (map JobDone perm) = map Result rs"
    by (simp add: rs_def)
  have fr: "map frame rs = perm" by (simp add: rs_def comp_def frame_process)
  have p1: "\<forall>r\<in>set rs \<union> set []. err r = None \<and> r = process oor rt opts (frame r)"
    using assms(2) by (auto simp add: rs_def frame_process)
  have p2: "mset (map frame ([] @ rs)) = mset [0..frames opts - 1]"
    using assms(1) fr by simp
  show ?thesis
    unfolding frames_seq_def ev
    using frames_loop_in_order [OF p1 p2] by simp
qed


theorem frames_emitted_in_order_witness:
  "frames_seq example_oor root_constant (options_frames 5) (map JobDone [3, 0, 4, 1, 2]) =
     (map (\<lambda>fr. (img (process example_oor root_constant (options_frames 5) fr), None))
        [0, 1, 2, 3, 4], Completed)"
proof -
  have fr: "frames (options_frames 5) = 5" by (simp add: options_frames_def)
  have up: "[0..frames (options_frames 5) - 1] = [0, 1, 2, 3, 4]"
    unfolding fr by code_simp
  have perm: "mset [3, 0, 4, 1, 2] = mset [0..frames (options_frames 5) - 1]"
    unfolding up by simp
  have ok: "\<forall>fr\<in>set [3, 0, 4, 1, 2]. err (process example_oor root_constant (options_frames 5) fr) = None"
    by code_simp
  show ?thesis
    using frames_emitted_in_order [OF perm ok] unfolding up .
qed

text \<open>
  A failed result aborts the loop, provided its frame has not arrived before: the expected
  frame cannot have passed it.
\<close>

lemma set_SortFunc_frames: "set (SortFunc (buf @ [r]) cmpFrame) = insert r (set buf)"
  by (simp add: set_SortFunc)

lemma frames_loop_abort:
  "\<forall>r\<in>set pre. err r = None \<Longrightarrow> err bad = Some e \<Longrightarrow>
   frame bad \<notin> set (map frame pre) \<Longrightarrow> frame bad \<notin> set (map frame buf) \<Longrightarrow>
   x \<le> frame bad \<Longrightarrow> frame bad < n \<Longrightarrow>
     frames_loop n x buf (map Result pre @ Result bad # rest) =
       (fst (frames_loop n x buf (map Result pre)) @ [(None, Some (FrameError e))], Aborted)"
proof (induction pre arbitrary: x buf)
  case Nil
  then show ?case by simp
next
  case (Cons p pre)
  have lt: "x < n" using Cons.prems(5,6) by simp
  have ok: "err p = None" and rest_ok: "\<forall>r\<in>set pre. err r = None"
    using Cons.prems(1) by simp_all
  have np: "frame bad \<noteq> frame p" and npre: "frame bad \<notin> set (map frame pre)"
    using Cons.prems(3) by auto
  show ?case
  proof (cases "frame p = x")
    case False
    define buf1 where "buf1 = SortFunc (buf @ [p]) cmpFrame"
    have nb: "frame bad \<notin> set (map frame buf1)"
      using Cons.prems(4) np by (auto simp add: buf1_def set_SortFunc_frames)
    show ?thesis
      using Cons.IH [OF rest_ok Cons.prems(2) npre nb Cons.prems(5,6)] False lt ok
      by (simp add: buf1_def)
  next
    case True
    obtain ys x' buf' where d: "drain (x + 1) buf = (ys, x', buf')"
      by (cases "drain (x + 1) buf") auto
    from drain_spec [OF d] obtain taken where t: "buf = taken @ buf'"
      "map frame taken = [x + 1..x' - 1]" "x + 1 \<le> x'"
      by blast
    have nt: "frame bad \<notin> set [x + 1..x' - 1]"
      using Cons.prems(4) t(1) t(2) [symmetric] by simp
    have "x + 1 \<le> frame bad" using Cons.prems(5) np True by simp
    then have le: "x' \<le> frame bad" using nt by simp
    have nb: "frame bad \<notin> set (map frame buf')" using Cons.prems(4) t(1) by simp
    obtain out how where l: "frames_loop n x' buf' (map Result pre) = (out, how)"
      by (cases "frames_loop n x' buf' (map Result pre)")
    show ?thesis
      using Cons.IH [OF rest_ok Cons.prems(2) npre nb le Cons.prems(6)] True lt ok d l
      by simp
  qed
qed

lemma frames_loop_images:
  "\<forall>r\<in>set rs. err r = None \<Longrightarrow>
     \<forall>y\<in>set (fst (frames_loop n x buf (map Result rs))). snd y = None"
proof (induction rs arbitrary: x buf)
  case Nil
  then show ?case by simp
next
  case (Cons r rs)
  obtain ys x' buf' where d: "drain (x + 1) buf = (ys, x', buf')"
    by (cases "drain (x + 1) buf") auto
  obtain out how where l: "frames_loop n x' buf' (map Result rs) = (out, how)"
    by (cases "frames_loop n x' buf' (map Result rs)")
  have "\<forall>y\<in>set out. snd y = None" using Cons.IH [of x' buf'] Cons.prems l by simp
  then show ?case
    using Cons.IH [of x "SortFunc (buf @ [r]) cmpFrame"] Cons.prems d l by auto
qed

text \<open>
  C9. When the job of a frame fails, and the results that arrived before it are of other
  frames and did not fail, the loop yields the error right after what it had yielded for
  those results, and returns: the error is the last element, every element before it is an
  image, and nothing that arrives later or waits in the buffer is yielded.
\<close>

theorem frames_abort_on_error:
  assumes "\<forall>fr\<in>set pre. err (process oor rt opts fr) = None"
    and "err (process oor rt opts bad) = Some e"
    and "bad \<notin> set pre" and "0 \<le> bad" and "bad < frames opts"
  shows "frames_seq oor rt opts (map JobDone pre @ JobDone bad # rest) =
           (fst (frames_seq oor rt opts (map JobDone pre)) @ [(None, Some (FrameError e))], Aborted) \<and>
         (\<forall>y\<in>set (fst (frames_seq oor rt opts (map JobDone pre))). snd y = None)"
proof -
  define rs where "rs = map (process oor rt opts) pre"
  have ev: "map (event_of oor rt opts) (map JobDone pre) = map Result rs"
    by (simp add: rs_def)
  have ev2: "map (event_of oor rt opts) (map JobDone pre @ JobDone bad # rest) =
      map Result rs @ Result (process oor rt opts bad) # map (event_of oor rt opts) rest"
    by (simp add: rs_def)
  have p1: "\<forall>r\<in>set rs. err r = None" using assms(1) by (simp add: rs_def)
  have p3: "frame (process oor rt opts bad) \<notin> set (map frame rs)"
    using assms(3) by (simp add: rs_def comp_def frame_process)
  have p4: "frame (process oor rt opts bad) \<notin> set (map frame [])" by simp
  have p5: "0 \<le> frame (process oor rt opts bad)" "frame (process oor rt opts bad) < frames opts"
    using assms(4,5) by (simp_all add: frame_process)
  show ?thesis
    unfolding frames_seq_def ev ev2
    using frames_loop_abort [OF p1 assms(2) p3 p4 p5] frames_loop_images [OF p1]
    by simp
qed

theorem frames_abort_on_error_witness:
  "frames_seq example_oor root_fails_early (options_frames 3) (map JobDone [2] @ JobDone 0 # [JobDone 1]) =
     ([(None, Some (FrameError (EvalError (ValidationError (valueF example_pos (Fin 0)) root))))],
      Aborted) \<and>
   fst (frames_seq example_oor root_fails_early (options_frames 3) (map JobDone [2])) = []"
proof -
  have ok: "\<forall>fr\<in>set [2]. err (process example_oor root_fails_early (options_frames 3) fr) = None"
    by code_simp
  have bad: "err (process example_oor root_fails_early (options_frames 3) 0) =
      Some (EvalError (ValidationError (valueF example_pos (Fin 0)) root))"
    by code_simp
  have fresh: "(0::int) \<notin> set [2]" and rng: "(0::int) \<le> 0" "0 < frames (options_frames 3)"
    by (simp_all add: options_frames_def)
  have fr3: "frames (options_frames 3) = 3" by (simp add: options_frames_def)
  have buffered: "fst (frames_seq example_oor root_fails_early (options_frames 3) (map JobDone [2])) = []"
    using ok by (simp add: frames_seq_def fr3 frame_process)
  show ?thesis
    using frames_abort_on_error [OF ok bad fresh rng, of "[JobDone 1]"] buffered by simp
qed

section \<open>Random values are drawn at generation\<close>

text \<open>The colour channel of a value \<open>2u - 1\<close> with \<open>u\<close> in \<open>[0, 1)\<close> fits a byte.\<close>

lemma channel_of_draw:
  assumes "0 \<le> u" "u < 1"
  shows "channel oor (Fin (u * 2 - 1)) = word_of_int \<lfloor>u * 255\<rfloor>"
proof -
  have v: "f64_mul (f64_div (f64_add (Fin (u * 2 - 1)) (Fin 1)) (Fin 2)) (Fin 255) = Fin (u * 255)"
    by simp
  have "0 \<le> u * 255" "u * 255 < 255" using assms by simp_all
  then have "0 \<le> \<lfloor>u * 255\<rfloor>" "\<lfloor>u * 255\<rfloor> \<le> 255" by (simp_all add: floor_le_iff)
  moreover have "go_trunc (u * 255) = \<lfloor>u * 255\<rfloor>" using \<open>0 \<le> u * 255\<close> by (simp add: go_trunc_def)
  ultimately show ?thesis unfolding channel_def v by (simp add: uint8_of_def)
qed

lemma renderPoint_baked:
  assumes "\<forall>n. 0 \<le> d n \<and> d n < 1"
  shows "renderPoint oor (baked_root d) s = Inr (baked_colour d)"
  using assms by (simp add: renderPoint_def baked_root_def baked_colour_def channel_of_draw)

text \<open>A root that gives every pixel the colour \<open>col\<close>.\<close>

lemma render_points_constant:
  assumes "\<And>s. renderPoint oor rt s = Inr col" and "src opts = Uniform c"
  shows "\<exists>m'. render_points oor rt opts fr ps m = Inr m' \<and> img_Rect m' = img_Rect m \<and>
           (\<forall>x y. img_Pix m' (x, y) =
              (if (x, y) \<in> set ps \<and> MinX (img_Rect m) \<le> x \<and> x < MaxX (img_Rect m) \<and>
                  MinY (img_Rect m) \<le> y \<and> y < MaxY (img_Rect m)
               then col else img_Pix m (x, y)))"
proof (induction ps arbitrary: m)
  case Nil
  then show ?case by simp
next
  case (Cons p ps)
  obtain px py where p: "p = (px, py)" by (cases p)
  define m1 where "m1 = RGBAImage_Set m px py col"
  have r1: "img_Rect m1 = img_Rect m" by (simp add: m1_def RGBAImage_Set_def)
  have pix1: "img_Pix m1 (x, y) =
      (if (x, y) = (px, py) \<and> MinX (img_Rect m) \<le> x \<and> x < MaxX (img_Rect m) \<and>
          MinY (img_Rect m) \<le> y \<and> y < MaxY (img_Rect m)
       then col else img_Pix m (x, y))" for x y
    by (auto simp add: m1_def RGBAImage_Set_def)
  from Cons.IH [of m1] obtain m' where m': "render_points oor rt opts fr ps m1 = Inr m'"
    "img_Rect m' = img_Rect m1"
    "\<forall>x y. img_Pix m' (x, y) =
       (if (x, y) \<in> set ps \<and> MinX (img_Rect m1) \<le> x \<and> x < MaxX (img_Rect m1) \<and>
           MinY (img_Rect m1) \<le> y \<and> y < MaxY (img_Rect m1)
        then col else img_Pix m1 (x, y))"
    by blast
  have "render_points oor rt opts fr (p # ps) m = Inr m'"
    using m'(1) assms by (simp add: p m1_def)
  moreover have "img_Rect m' = img_Rect m" using m'(2) r1 by simp
  moreover have "\<forall>x y. img_Pix m' (x, y) =
      (if (x, y) \<in> set (p # ps) \<and> MinX (img_Rect m) \<le> x \<and> x < MaxX (img_Rect m) \<and>
          MinY (img_Rect m) \<le> y \<and> y < MaxY (img_Rect m)
       then col else img_Pix m (x, y))"
    using m'(3) pix1 r1 p by auto
  ultimately show ?case by blast
qed

lemma set_points: "set (points w h) = {(x, y). 0 \<le> x \<and> x < w \<and> 0 \<le> y \<and> y < h}"
  by (auto simp add: points_def)

lemma process_constant:
  assumes "\<And>s. renderPoint oor rt s = Inr col" and "src opts = Uniform c"
    and "0 < width opts" and "0 < height opts"
  shows "\<exists>m. process oor rt opts fr = \<lparr>frame = fr, img = Some m, err = None\<rparr> \<and>
           img_Rect m = image_Rect 0 0 (width opts) (height opts) \<and>
           (\<forall>x y. 0 \<le> x \<and> x < width opts \<and> 0 \<le> y \<and> y < height opts \<longrightarrow> img_Pix m (x, y) = col)"
proof -
  define m0 where "m0 = NewRGBA (image_Rect 0 0 (width opts) (height opts))"
  have r0: "img_Rect m0 = \<lparr>MinX = 0, MinY = 0, MaxX = width opts, MaxY = height opts\<rparr>"
    using assms(3,4) by (simp add: m0_def NewRGBA_def image_Rect_def min_def max_def)
  from render_points_constant [OF assms(1,2), of fr "points (width opts) (height opts)" m0]
  obtain m where m: "render_points oor rt opts fr (points (width opts) (height opts)) m0 = Inr m"
    "img_Rect m = img_Rect m0"
    "\<forall>x y. img_Pix m (x, y) =
       (if (x, y) \<in> set (points (width opts) (height opts)) \<and> MinX (img_Rect m0) \<le> x \<and>
           x < MaxX (img_Rect m0) \<and> MinY (img_Rect m0) \<le> y \<and> y < MaxY (img_Rect m0)
        then col else img_Pix m0 (x, y))"
    by blast
  have "process oor rt opts fr = \<lparr>frame = fr, img = Some m, err = None\<rparr>"
    using m(1) by (simp add: process_def m0_def)
  moreover have "img_Rect m = image_Rect 0 0 (width opts) (height opts)"
    using m(2) by (simp add: m0_def NewRGBA_def)
  moreover have "\<forall>x y. 0 \<le> x \<and> x < width opts \<and> 0 \<le> y \<and> y < height opts \<longrightarrow> img_Pix m (x, y) = col"
    using m(3) r0 by (simp add: set_points)
  ultimately show ?thesis by blast
qed

text \<open>
  The generation of \<open>S ::= {?, ?, ?} %1.0 .\<close> with seed 42 and the default depth and tries:
  one draw selects the alternative, the next three become the three numbers.
\<close>

lemma Grammar_Gen_random:
  "fst (Grammar_Gen pcg now grammar_random [WithSeeds 42]) = Inr (baked_root (pcg 42 43))"
proof -
  define alt where "alt = \<lparr>Alternate = Triplet example_pos (Random example_pos True)
      (Random example_pos True) (Random example_pos True), Probability = 1\<rparr>"
  define p0 where "p0 = \<lparr>Name = ''S'', Alternatives = [alt]\<rparr>"
  define pr where "pr = \<lparr>Production = p0, prod_max = 1, totals = [1]\<rparr>"
  define opt where "opt = \<lparr>Seed = 42, MaxDepth = 10, MaxGenerationTries = 100\<rparr>"
  define s where "s = \<lparr>options = opt, seed = pcg 42 43, rules = [''S'' \<mapsto> pr]\<rparr>"
  have res: "resolve (Productions grammar_random) Map.empty = Inr ([p0], [''S'' \<mapsto> pr])"
    by (simp add: grammar_random_def SortFunc_def Let_def p0_def pr_def alt_def)
  have o: "generatorOptions now [WithSeeds 42] = opt"
    by (simp add: generatorOptions_def defaultGeneratorStateOptions_def opt_def)
  have sel: "nat (select_aNo [1] x [alt]) = 0" "\<not> select_aNo [1] x [alt] < 0" for x
    using select_aNo_range [of "[alt]" "[1]" x] by simp_all
  have tri: "Alternate_Gen s (Alternate alt) 9 (Suc 0) = (Inr (baked_root (pcg 42 43)), 4)"
    by (simp add: alt_def baked_root_def s_def numeral_2_eq_2 numeral_3_eq_3)
  have f: "MaxGenerationTries (options s) = 100" "Alternatives p0 = [alt]" "totals pr = [1]"
    by (simp_all add: s_def opt_def p0_def pr_def)
  have loop: "Production_Gen_loop s p0 pr 10 0 0 = (Inr (baked_root (pcg 42 43)), 4)"
    by (subst Production_Gen_loop.simps) (simp add: f sel tri Let_def)
  have r: "rules s (Name p0) = Some pr" by (simp add: s_def p0_def)
  have "Production_Gen s p0 10 0 = (Inr (baked_root (pcg 42 43)), 4)"
    using loop r by simp
  then show ?thesis
    by (simp add: Grammar_Gen_def res o Let_def opt_def s_def del: Production_Gen.simps)
qed


lemma Render_constant:
  assumes "\<And>s. renderPoint oor rt s = Inr col" and "0 < w" and "0 < h"
  shows "\<exists>m. Render oor rt [WithResolution w h] [JobDone 0] = Some (Some m, None) \<and>
           img_Rect m = image_Rect 0 0 w h \<and>
           (\<forall>x y. 0 \<le> x \<and> x < w \<and> 0 \<le> y \<and> y < h \<longrightarrow> img_Pix m (x, y) = col)"
proof -
  define opts where "opts = \<lparr>width = w, height = h, frames = 1, src = Uniform color_White\<rparr>"
  have ap: "renderOptions_apply defaultRenderOptions [WithResolution w h] = (opts, None)"
    using assms(2,3) by (simp add: renderOptions_apply_def defaultRenderOptions_def validate_def opts_def)
  have o: "src opts = Uniform color_White" "0 < width opts" "0 < height opts" "frames opts = 1"
    "width opts = w" "height opts = h"
    using assms(2,3) by (simp_all add: opts_def)
  from process_constant [OF assms(1) o(1,2,3), of 0] obtain m where
    m: "process oor rt opts 0 = \<lparr>frame = 0, img = Some m, err = None\<rparr>"
    "img_Rect m = image_Rect 0 0 (width opts) (height opts)"
    "\<forall>x y. 0 \<le> x \<and> x < width opts \<and> 0 \<le> y \<and> y < height opts \<longrightarrow> img_Pix m (x, y) = col"
    by blast
  have "frames_seq oor rt opts [JobDone 0] = ([(Some m, None)], Completed)"
    by (simp add: frames_seq_def o(4) m(1))
  then have "Render oor rt [WithResolution w h] [JobDone 0] = Some (Some m, None)"
    by (simp add: Render_def ap)
  then show ?thesis using m(2,3) o(5,6) by auto
qed

text \<open>
  C7. Generating a \<open>Random\<close> template takes one draw \<open>u\<close> from the source and gives the
  number node \<open>2u - 1\<close>, and a number node evaluates to itself against every state. So for
  the grammar \<open>S ::= {?, ?, ?} %1.0 .\<close> and seed 42, whenever the draws of the source are in
  \<open>[0, 1)\<close>: generation succeeds with a triple of three numbers in \<open>[-1, 1)\<close>; the tree
  depends on nothing but the grammar and the source seeded with 42 (not on the clock); and
  rendering it at 2 by 2 with one frame gives an image of bounds 2 by 2 whose four pixels
  all have the one colour fixed by the three draws.
\<close>

theorem random_is_baked_once:
  assumes "\<forall>n. 0 \<le> pcg 42 43 n \<and> pcg 42 43 n < 1"
  shows "Alternate_Gen state (Random p b) depth n =
           (Inr (valueF p (Fin (seed state n * 2 - 1))), Suc n) \<and>
         Eval (valueF p v) s = Inr (valueF p v) \<and>
         fst (Grammar_Gen pcg now grammar_random [WithSeeds 42]) = Inr (baked_root (pcg 42 43)) \<and>
         (\<exists>a1 a2 a3. baked_root (pcg 42 43) =
            triple example_pos (valueF example_pos (Fin a1)) (valueF example_pos (Fin a2))
              (valueF example_pos (Fin a3)) \<and>
            - 1 \<le> a1 \<and> a1 < 1 \<and> - 1 \<le> a2 \<and> a2 < 1 \<and> - 1 \<le> a3 \<and> a3 < 1) \<and>
         (\<exists>m. Render oor (baked_root (pcg 42 43)) [WithResolution 2 2] [JobDone 0] = Some (Some m, None) \<and>
            img_Rect m = image_Rect 0 0 2 2 \<and>
            (\<forall>x y. 0 \<le> x \<and> x < 2 \<and> 0 \<le> y \<and> y < 2 \<longrightarrow>
               img_Pix m (x, y) = baked_colour (pcg 42 43)))"
proof -
  have rng: "- 1 \<le> pcg 42 43 k * 2 - 1 \<and> pcg 42 43 k * 2 - 1 < 1" for k
    using assms [rule_format, of k] by simp
  have interval: "\<exists>a1 a2 a3. baked_root (pcg 42 43) =
            triple example_pos (valueF example_pos (Fin a1)) (valueF example_pos (Fin a2))
              (valueF example_pos (Fin a3)) \<and>
            - 1 \<le> a1 \<and> a1 < 1 \<and> - 1 \<le> a2 \<and> a2 < 1 \<and> - 1 \<le> a3 \<and> a3 < 1"
    unfolding baked_root_def using rng [of 1] rng [of 2] rng [of 3] by blast
  have pixels: "\<exists>m. Render oor (baked_root (pcg 42 43)) [WithResolution 2 2] [JobDone 0] = Some (Some m, None) \<and>
            img_Rect m = image_Rect 0 0 2 2 \<and>
            (\<forall>x y. 0 \<le> x \<and> x < 2 \<and> 0 \<le> y \<and> y < 2 \<longrightarrow>
               img_Pix m (x, y) = baked_colour (pcg 42 43))"
    using Render_constant [of oor "baked_root (pcg 42 43)" "baked_colour (pcg 42 43)" 2 2]
      renderPoint_baked [OF assms] by simp
  show ?thesis
    using interval pixels Grammar_Gen_random [of pcg now] by simp
qed

theorem random_is_baked_once_witness:
  "fst (Grammar_Gen draws_half 0 grammar_random [WithSeeds 42]) =
     Inr (triple example_pos (valueF example_pos (Fin 0)) (valueF example_pos (Fin 0))
            (valueF example_pos (Fin 0))) \<and>
   (\<exists>m. Render example_oor
          (triple example_pos (valueF example_pos (Fin 0)) (valueF example_pos (Fin 0))
             (valueF example_pos (Fin 0)))
          [WithResolution 2 2] [JobDone 0] = Some (Some m, None) \<and>
        img_Pix m (0, 0) = (127, 127, 127, 255) \<and> img_Pix m (1, 0) = (127, 127, 127, 255) \<and>
        img_Pix m (0, 1) = (127, 127, 127, 255) \<and> img_Pix m (1, 1) = (127, 127, 127, 255))"
proof -
  have d: "\<forall>n. 0 \<le> draws_half 42 43 n \<and> draws_half 42 43 n < 1"
    by (simp add: draws_half_def)
  have r: "baked_root (draws_half 42 43) =
      triple example_pos (valueF example_pos (Fin 0)) (valueF example_pos (Fin 0))
        (valueF example_pos (Fin 0))"
    by (simp add: baked_root_def draws_half_def)
  have "\<lfloor>(255::real) / 2\<rfloor> = 127" by (simp add: floor_eq_iff)
  then have c: "baked_colour (draws_half 42 43) = (127, 127, 127, 255)"
    by (simp add: baked_colour_def draws_half_def)
  note t = random_is_baked_once [where pcg = draws_half and now = 0 and oor = example_oor, OF d]
  from t have gen: "fst (Grammar_Gen draws_half 0 grammar_random [WithSeeds 42]) =
      Inr (baked_root (draws_half 42 43))"
    by blast
  from t obtain m where m: "Render example_oor (baked_root (draws_half 42 43)) [WithResolution 2 2]
      [JobDone 0] = Some (Some m, None)"
    "\<forall>x y. 0 \<le> x \<and> x < 2 \<and> 0 \<le> y \<and> y < 2 \<longrightarrow> img_Pix m (x, y) = baked_colour (draws_half 42 43)"
    by blast
  have "img_Pix m (0, 0) = (127, 127, 127, 255)" "img_Pix m (1, 0) = (127, 127, 127, 255)"
    "img_Pix m (0, 1) = (127, 127, 127, 255)" "img_Pix m (1, 1) = (127, 127, 127, 255)"
    using m(2) c by simp_all
  then show ?thesis using gen m(1) r by auto
qed

end
